theory Spec2Isabelle
  imports Complex_Main "HOL-Library.Word"
begin

section \<open>The shop script \<^verbatim>\<open>pag-web/script.js\<close>\<close>

text \<open>
  The script keeps a shopping cart in a JavaScript object, mirrors it into
  \<^verbatim>\<open>localStorage\<close> as JSON text and renders totals and an order summary.

  Conventions of the embedding.
  \<^item> A JavaScript string is the list of its UTF-16 code units.
  \<^item> Every Number the script computes with is an integer (ids, prices,
    quantities and their sums and products). A field of the catalogue or of
    the cart holds such a Number as an \<^typ>\<open>int\<close>. The arithmetic is that of
    IEEE doubles: a sum or a product is the double nearest to the exact
    result, or an infinity, and \<^verbatim>\<open>toString\<close> prints the shortest decimal
    that reads back as the Number. Only inside the safe integers (up to
    \<open>2\<^sup>5\<^sup>3 - 1\<close>) are the results the exact ones.
  \<^item> An object is the list of its own properties in enumeration order.
  \<^item> An exception is a value \<open>Inl e\<close>; a handler that throws leaves the
    state it was called on.
\<close>

subsection \<open>Strings\<close>

type_synonym code_unit = "16 word"
type_synonym jsstring = "code_unit list"

definition ascii :: "string \<Rightarrow> jsstring" where
  "ascii s = map of_char s"

definition is_digit :: "code_unit \<Rightarrow> bool" where
  "is_digit c = (0x30 \<le> c \<and> c \<le> 0x39)"

text \<open>The class \<^verbatim>\<open>\w\<close> of a regular expression without flags: \<^verbatim>\<open>[A-Za-z0-9_]\<close>.\<close>

definition is_word_char :: "code_unit \<Rightarrow> bool" where
  "is_word_char c =
     ((0x30 \<le> c \<and> c \<le> 0x39) \<or> (0x41 \<le> c \<and> c \<le> 0x5A) \<or> c = 0x5F \<or>
      (0x61 \<le> c \<and> c \<le> 0x7A))"

text \<open>\<^verbatim>\<open>Array.prototype.join\<close> on a list of strings.\<close>

fun join :: "'a list \<Rightarrow> 'a list list \<Rightarrow> 'a list" where
  "join sep [] = []"
| "join sep [x] = x"
| "join sep (x # y # r) = x @ sep @ join sep (y # r)"

subsection \<open>Numbers\<close>

text \<open>
  The value of an arithmetic expression over integers: an integer, an
  infinity or \<^verbatim>\<open>NaN\<close>. The two zeros are not told apart.
\<close>

datatype number = Finite int | PosInfinity | NegInfinity | NaN

text \<open>\<^verbatim>\<open>Number.MAX_SAFE_INTEGER\<close>, which is \<open>2\<^sup>5\<^sup>3 - 1\<close>.\<close>

definition MAX_SAFE_INTEGER :: int where
  "MAX_SAFE_INTEGER = 9007199254740991"

text \<open>The number of binary digits of a natural number.\<close>

fun bit_length :: "nat \<Rightarrow> nat" where
  "bit_length n = (if n = 0 then 0 else Suc (bit_length (n div 2)))"

declare bit_length.simps [simp del]

text \<open>
  The double nearest to a natural number. A double has 53 significant binary
  digits: of a longer number the leading 53 digits \<open>q\<close> are kept and the rest
  \<open>r\<close> is rounded to the nearest, a tie to the neighbour whose last digit is
  even.
\<close>

definition round_nat :: "nat \<Rightarrow> nat" where
  "round_nat v =
     (let e = bit_length v - 53; q = v div 2 ^ e; r = v mod 2 ^ e in
      if 2 ^ e < 2 * r \<or> (2 * r = 2 ^ e \<and> odd q) then (q + 1) * 2 ^ e else q * 2 ^ e)"

definition round_double :: "int \<Rightarrow> int" where
  "round_double x = (if x < 0 then - int (round_nat (nat (- x))) else int (round_nat (nat x)))"

text \<open>
  The Number that an exact integer result becomes: the nearest double, and an
  infinity where that would be \<open>2\<^sup>1\<^sup>0\<^sup>2\<^sup>4\<close> or more.
\<close>

definition to_number :: "int \<Rightarrow> number" where
  "to_number x =
     (let y = round_double x in
      if 2 ^ 1024 \<le> y then PosInfinity else if y \<le> - (2 ^ 1024) then NegInfinity
      else Finite y)"

text \<open>\<^verbatim>\<open>x + y\<close>, and \<^verbatim>\<open>a * b\<close> of two fields.\<close>

definition js_add :: "number \<Rightarrow> number \<Rightarrow> number" where
  "js_add x y =
     (case x of
        Finite a \<Rightarrow> (case y of Finite b \<Rightarrow> to_number (a + b) | _ \<Rightarrow> y)
      | PosInfinity \<Rightarrow> (case y of NegInfinity \<Rightarrow> NaN | NaN \<Rightarrow> NaN | _ \<Rightarrow> PosInfinity)
      | NegInfinity \<Rightarrow> (case y of PosInfinity \<Rightarrow> NaN | NaN \<Rightarrow> NaN | _ \<Rightarrow> NegInfinity)
      | NaN \<Rightarrow> NaN)"

definition js_mul :: "int \<Rightarrow> int \<Rightarrow> number" where
  "js_mul a b = to_number (a * b)"

subsection \<open>Numbers as text\<close>

definition digit_char :: "nat \<Rightarrow> code_unit" where
  "digit_char d = 0x30 + of_nat d"

fun digits_of_nat :: "nat \<Rightarrow> jsstring" where
  "digits_of_nat n =
     (if n < 10 then [digit_char n] else digits_of_nat (n div 10) @ [digit_char (n mod 10)])"

declare digits_of_nat.simps [simp del]

text \<open>
  The digits of an integer, with its sign. This is the text of every safe
  integer (\<open>toString_safe\<close> below). The property keys and the numbers of
  the stored JSON text are written with it: the keys of the catalogue are
  safe integers, and a number of the stored text is read back from its
  digits as the same integer, as \<^verbatim>\<open>JSON.parse\<close> reads back every Number
  that \<^verbatim>\<open>JSON.stringify\<close> has written.
\<close>

definition number_toString :: "int \<Rightarrow> jsstring" where
  "number_toString n =
     (if n < 0 then 0x2D # digits_of_nat (nat (- n)) else digits_of_nat (nat n))"

text \<open>
  \<^verbatim>\<open>Number.prototype.toString\<close> (\<^verbatim>\<open>Number::toString\<close> of the language
  specification) prints the decimal with the fewest significant digits among
  those whose nearest double is the Number; of two such decimals the one
  closer to the Number, of two equally close ones the one with the even last
  digit. For a natural number \<open>x\<close> the candidates with their last significant
  digit at the power \<open>10 ^ p\<close> are the multiple of \<open>10 ^ p\<close> just below \<open>x\<close> and
  the next one; the search goes from the highest power down, and ends with
  \<open>x\<close> itself.
\<close>

fun shortest_decimal :: "nat \<Rightarrow> nat \<Rightarrow> nat" where
  "shortest_decimal 0 x = x"
| "shortest_decimal (Suc p) x =
     (let u = 10 ^ Suc p; lo = (x div u) * u; hi = lo + u;
          lo_ok = (round_nat lo = x); hi_ok = (round_nat hi = x)
      in if lo_ok \<and> hi_ok then
           (if x - lo < hi - x then lo else if hi - x < x - lo then hi
            else if even (x div u) then lo else hi)
         else if lo_ok then lo
         else if hi_ok then hi
         else shortest_decimal p x)"

text \<open>
  A decimal of up to 21 digits is printed as it is, a longer one with an
  exponent: \<^verbatim>\<open>1e+21\<close>, \<^verbatim>\<open>1.5e+21\<close>.
\<close>

definition strip_zeros :: "jsstring \<Rightarrow> jsstring" where
  "strip_zeros ds = rev (dropWhile (\<lambda>c. c = 0x30) (rev ds))"

definition render_digits :: "jsstring \<Rightarrow> jsstring" where
  "render_digits ds =
     (if length ds \<le> 21 then ds
      else
        let sig = strip_zeros ds; ex = digits_of_nat (length ds - 1) in
        if length sig = 1 then sig @ [0x65, 0x2B] @ ex
        else hd sig # 0x2E # tl sig @ [0x65, 0x2B] @ ex)"

definition nat_toString :: "nat \<Rightarrow> jsstring" where
  "nat_toString v =
     render_digits (digits_of_nat (shortest_decimal (length (digits_of_nat v) - 1) v))"

text \<open>\<^verbatim>\<open>n.toString()\<close> and the implicit conversion of a Number to a string.\<close>

fun toString :: "number \<Rightarrow> jsstring" where
  "toString (Finite x) =
     (if x < 0 then 0x2D # nat_toString (nat (- x)) else nat_toString (nat x))"
| "toString PosInfinity = ascii ''Infinity''"
| "toString NegInfinity = ascii ''-Infinity''"
| "toString NaN = ascii ''NaN''"

text \<open>The value of a string of decimal digits.\<close>

definition decimal_value :: "jsstring \<Rightarrow> nat" where
  "decimal_value ds = foldl (\<lambda>a c. 10 * a + (unat c - 48)) 0 ds"

subsection \<open>Utility functions\<close>

text \<open>
  \<^verbatim>\<open>function formatMoney(n) {
    return '$' + n.toString().replace(/\B(?=(\d{3})+(?!\d))/g, '.');
  }\<close>

  The regular expression matches the empty string at every position that is
  not a word boundary (\<^verbatim>\<open>\B\<close>) and from which one or more groups of three
  digits follow up to a character that is not a digit (or the end). With the
  flag \<^verbatim>\<open>g\<close> every position of the string is tried once, from left to
  right, and a separator is put in at each match.
\<close>

text \<open>The look-ahead \<^verbatim>\<open>(?=(\d{3})+(?!\d))\<close> on the rest of the string.\<close>

fun digit_groups_ahead :: "jsstring \<Rightarrow> bool" where
  "digit_groups_ahead (a # b # c # r) =
     (is_digit a \<and> is_digit b \<and> is_digit c \<and>
      ((case r of [] \<Rightarrow> True | d # _ \<Rightarrow> \<not> is_digit d) \<or> digit_groups_ahead r))"
| "digit_groups_ahead _ = False"

text \<open>\<^verbatim>\<open>\B\<close> between the previous and the next character (\<open>None\<close> at either end).\<close>

definition not_word_boundary :: "code_unit option \<Rightarrow> code_unit option \<Rightarrow> bool" where
  "not_word_boundary p n =
     ((case p of None \<Rightarrow> False | Some c \<Rightarrow> is_word_char c) =
      (case n of None \<Rightarrow> False | Some c \<Rightarrow> is_word_char c))"

fun insert_separators :: "code_unit option \<Rightarrow> jsstring \<Rightarrow> jsstring" where
  "insert_separators p [] =
     (if not_word_boundary p None \<and> digit_groups_ahead [] then [0x2E] else [])"
| "insert_separators p (c # cs) =
     (if not_word_boundary p (Some c) \<and> digit_groups_ahead (c # cs) then [0x2E] else [])
       @ c # insert_separators (Some c) cs"

definition formatMoney :: "number \<Rightarrow> jsstring" where
  "formatMoney n = 0x24 # insert_separators None (toString n)"

text \<open>
  \<^verbatim>\<open>function escapeHtml(s) {
    return (s + '').replace(/&/g, '&amp;').replace(/</g, '&lt;').replace(/>/g, '&gt;')
                   .replace(/"/g, '&quot;').replace(/'/g, '&#039;');
  }\<close>
\<close>

text \<open>\<^verbatim>\<open>s.replace(/c/g, r)\<close> for a single character \<open>c\<close>.\<close>

definition replace_all_char :: "code_unit \<Rightarrow> jsstring \<Rightarrow> jsstring \<Rightarrow> jsstring" where
  "replace_all_char c r s = concat (map (\<lambda>x. if x = c then r else [x]) s)"

definition escapeHtml :: "jsstring \<Rightarrow> jsstring" where
  "escapeHtml s =
     replace_all_char 0x27 (ascii ''&#039;'')
       (replace_all_char 0x22 (ascii ''&quot;'')
         (replace_all_char 0x3E (ascii ''&gt;'')
           (replace_all_char 0x3C (ascii ''&lt;'')
             (replace_all_char 0x26 (ascii ''&amp;'') s))))"

subsection \<open>Objects\<close>

text \<open>
  An ordinary object lists its own properties with the array indices first, in
  ascending order, and the other keys after them in the order of their
  creation. An array index is the canonical decimal form of an integer from
  \<open>0\<close> to \<open>2\<^sup>3\<^sup>2 - 2\<close>.
\<close>

type_synonym 'v js_object = "(jsstring \<times> 'v) list"

definition array_index :: "jsstring \<Rightarrow> nat option" where
  "array_index k =
     (if k \<noteq> [] \<and> list_all is_digit k \<and> (length k = 1 \<or> hd k \<noteq> 0x30) \<and>
         decimal_value k < 4294967295
      then Some (decimal_value k) else None)"

text \<open>\<^verbatim>\<open>o[k]\<close>: \<open>None\<close> stands for \<^verbatim>\<open>undefined\<close>.\<close>

definition get_property :: "'v js_object \<Rightarrow> jsstring \<Rightarrow> 'v option" where
  "get_property ps k = map_of ps k"

text \<open>Assignment to a property that exists: the property keeps its place.\<close>

fun update_property :: "jsstring \<Rightarrow> ('v \<Rightarrow> 'v) \<Rightarrow> 'v js_object \<Rightarrow> 'v js_object" where
  "update_property k f [] = []"
| "update_property k f ((k', v) # ps) =
     (if k' = k then (k', f v) # ps else (k', v) # update_property k f ps)"

text \<open>A new array index \<open>n\<close> goes before the first larger index or other key.\<close>

fun insert_index :: "nat \<Rightarrow> jsstring \<Rightarrow> 'v \<Rightarrow> 'v js_object \<Rightarrow> 'v js_object" where
  "insert_index n k v [] = [(k, v)]"
| "insert_index n k v ((k', v') # ps) =
     (case array_index k' of
        Some m \<Rightarrow> if m < n then (k', v') # insert_index n k v ps else (k, v) # (k', v') # ps
      | None \<Rightarrow> (k, v) # (k', v') # ps)"

text \<open>\<^verbatim>\<open>o[k] = v\<close>.\<close>

definition set_property :: "jsstring \<Rightarrow> 'v \<Rightarrow> 'v js_object \<Rightarrow> 'v js_object" where
  "set_property k v ps =
     (case map_of ps k of
        Some _ \<Rightarrow> update_property k (\<lambda>_. v) ps
      | None \<Rightarrow>
          (case array_index k of
             Some n \<Rightarrow> insert_index n k v ps
           | None \<Rightarrow> ps @ [(k, v)]))"

text \<open>\<^verbatim>\<open>delete o[k]\<close>.\<close>

definition delete_property :: "jsstring \<Rightarrow> 'v js_object \<Rightarrow> 'v js_object" where
  "delete_property k ps = filter (\<lambda>p. fst p \<noteq> k) ps"

text \<open>\<^verbatim>\<open>Object.values(o)\<close>.\<close>

definition entries :: "'v js_object \<Rightarrow> 'v list" where
  "entries ps = map snd ps"

subsection \<open>Data\<close>

datatype js_error = SyntaxError | TypeError | URIError

record product =
  id' :: int
  name :: jsstring
  price :: int
  desc :: jsstring

text \<open>A cart entry is \<^verbatim>\<open>{...product, qty: n}\<close>: the fields of the product and a quantity.\<close>

record cart_item = product +
  qty :: int

definition products :: "product list" where
  "products =
    [\<lparr>id' = 1, name = ascii ''Caja de galletas navide'' @ [0xF1] @ ascii ''as'',
       price = 12000, desc = ascii ''Galletas artesanales con decoraciones festivas''\<rparr>,
     \<lparr>id' = 2, name = ascii ''Set de mug + cocoa'',
       price = 25000,
       desc = ascii ''Mug tem'' @ [0xE1] @ ascii ''tico y chocolate en polvo premium''\<rparr>,
     \<lparr>id' = 3, name = ascii ''Tarjeta personalizada'',
       price = 6000, desc = ascii ''Tarjeta hecha a mano con mensaje''\<rparr>,
     \<lparr>id' = 4, name = ascii ''Adorno para '' @ [0xE1] @ ascii ''rbol (pack 3)'',
       price = 18000,
       desc = ascii ''Adornos de cer'' @ [0xE1] @ ascii ''mica pintados a mano''\<rparr>,
     \<lparr>id' = 5, name = ascii ''Velas arom'' @ [0xE1] @ ascii ''ticas'',
       price = 15000,
       desc = ascii ''Aroma canela y naranja, ideal para ambiente navide'' @ [0xF1] @ ascii ''o''\<rparr>,
     \<lparr>id' = 6, name = ascii ''Guirnalda LED'',
       price = 22000,
       desc = ascii ''Luces c'' @ [0xE1] @ ascii ''lidas para decorar tu hogar''\<rparr>,
     \<lparr>id' = 7, name = ascii ''Calcet'' @ [0xED] @ ascii ''n navide'' @ [0xF1] @ ascii ''o grande'',
       price = 10000, desc = ascii ''Para colgar en la chimenea o pared''\<rparr>,
     \<lparr>id' = 8, name = ascii ''Mu'' @ [0xF1] @ ascii ''eco de nieve decorativo'',
       price = 30000, desc = ascii ''Figura de mesa con detalles brillantes''\<rparr>]"

type_synonym cart = "cart_item js_object"

datatype effect =
    MiniAlert jsstring
  | Alert jsstring
  | Confirm jsstring
  | WindowOpen "jsstring option"
  | DocumentWrite jsstring
  | DocumentClose

text \<open>
  The state the handlers work on: the variable \<^verbatim>\<open>cart\<close>, the slot
  \<^verbatim>\<open>tienda_cart\<close> of \<^verbatim>\<open>localStorage\<close>, the text of the elements
  \<^verbatim>\<open>cartCount\<close> and \<^verbatim>\<open>total\<close>, and what the user has been shown so far.
\<close>

record state =
  cart :: cart
  storage :: "jsstring option"
  cartCount :: jsstring
  totalEl :: jsstring
  effects :: "effect list"

text \<open>
  What the browser answers: the formatted date, \<^verbatim>\<open>encodeURIComponent\<close>
  (which throws a \<^verbatim>\<open>URIError\<close> on a lone surrogate) and whether
  \<^verbatim>\<open>window.open()\<close> yields a window.
\<close>

record env =
  now :: jsstring
  encodeURIComponent :: "jsstring \<Rightarrow> js_error + jsstring"
  popup_allowed :: bool

subsection \<open>Persistence: \<^verbatim>\<open>JSON.stringify\<close> of the cart\<close>

definition hex_digit_char :: "nat \<Rightarrow> code_unit" where
  "hex_digit_char d = (if d < 10 then 0x30 + of_nat d else 0x57 + of_nat d)"

definition unicode_escape :: "code_unit \<Rightarrow> jsstring" where
  "unicode_escape c =
     [0x5C, 0x75, hex_digit_char (unat c div 4096), hex_digit_char (unat c div 256 mod 16),
      hex_digit_char (unat c div 16 mod 16), hex_digit_char (unat c mod 16)]"

definition is_lead :: "code_unit \<Rightarrow> bool" where
  "is_lead c = (0xD800 \<le> c \<and> c \<le> 0xDBFF)"

definition is_trail :: "code_unit \<Rightarrow> bool" where
  "is_trail c = (0xDC00 \<le> c \<and> c \<le> 0xDFFF)"

text \<open>The quoted form of a code unit that is not a surrogate.\<close>

definition quote_unit :: "code_unit \<Rightarrow> jsstring" where
  "quote_unit c =
     (if c = 0x08 then [0x5C, 0x62]
      else if c = 0x09 then [0x5C, 0x74]
      else if c = 0x0A then [0x5C, 0x6E]
      else if c = 0x0C then [0x5C, 0x66]
      else if c = 0x0D then [0x5C, 0x72]
      else if c = 0x22 then [0x5C, 0x22]
      else if c = 0x5C then [0x5C, 0x5C]
      else if c < 0x20 then unicode_escape c
      else [c])"

text \<open>
  \<^verbatim>\<open>QuoteJSONString\<close> goes through the code points of the string: a surrogate
  pair is copied, a surrogate on its own is written as an escape.
\<close>

fun quote_units :: "jsstring \<Rightarrow> jsstring" where
  "quote_units [] = []"
| "quote_units [c] = (if is_lead c \<or> is_trail c then unicode_escape c else quote_unit c)"
| "quote_units (c # d # r) =
     (if is_lead c \<and> is_trail d then c # d # quote_units r
      else if is_lead c \<or> is_trail c then unicode_escape c @ quote_units (d # r)
      else quote_unit c @ quote_units (d # r))"

definition QuoteJSONString :: "jsstring \<Rightarrow> jsstring" where
  "QuoteJSONString s = 0x22 # quote_units s @ [0x22]"

definition stringify_item :: "cart_item \<Rightarrow> jsstring" where
  "stringify_item it =
     0x7B # QuoteJSONString (ascii ''id'') @ 0x3A # number_toString (id' it)
       @ 0x2C # QuoteJSONString (ascii ''name'') @ 0x3A # QuoteJSONString (name it)
       @ 0x2C # QuoteJSONString (ascii ''price'') @ 0x3A # number_toString (price it)
       @ 0x2C # QuoteJSONString (ascii ''desc'') @ 0x3A # QuoteJSONString (desc it)
       @ 0x2C # QuoteJSONString (ascii ''qty'') @ 0x3A # number_toString (qty it)
       @ [0x7D]"

text \<open>\<^verbatim>\<open>JSON.stringify(cart)\<close> for a cart whose entries have the five fields.\<close>

definition JSON_stringify :: "cart \<Rightarrow> jsstring" where
  "JSON_stringify c =
     0x7B # join [0x2C] (map (\<lambda>(k, it). QuoteJSONString k @ 0x3A # stringify_item it) c)
       @ [0x7D]"

subsection \<open>Cart management\<close>

text \<open>
  \<^verbatim>\<open>function persistCart() {
    localStorage.setItem('tienda_cart', JSON.stringify(cart));
  }\<close>
\<close>

definition persistCart :: "state \<Rightarrow> state" where
  "persistCart st = st\<lparr>storage := Some (JSON_stringify (cart st))\<rparr>"

text \<open>
  The two sums of \<^verbatim>\<open>renderCart\<close>:
  \<^verbatim>\<open>Object.values(cart).reduce((sum, item) => sum + item.qty, 0)\<close> and
  \<^verbatim>\<open>let total = 0; Object.values(cart).forEach(item => { total += item.qty * item.price; ... })\<close>.
\<close>

definition itemCount :: "cart \<Rightarrow> number" where
  "itemCount c = foldl (\<lambda>sum item. js_add sum (Finite (qty item))) (Finite 0) (entries c)"

definition orderTotal :: "cart \<Rightarrow> number" where
  "orderTotal c =
     foldl (\<lambda>total item. js_add total (js_mul (qty item) (price item))) (Finite 0) (entries c)"

text \<open>
  \<^verbatim>\<open>renderCart\<close> writes the count and the formatted total; the markup of the
  rows is left out.
\<close>

definition renderCart :: "state \<Rightarrow> state" where
  "renderCart st =
     st\<lparr>cartCount := toString (itemCount (cart st)),
        totalEl := formatMoney (orderTotal (cart st))\<rparr>"

definition showMiniAlert :: "jsstring \<Rightarrow> state \<Rightarrow> state" where
  "showMiniAlert text st = st\<lparr>effects := effects st @ [MiniAlert text]\<rparr>"

text \<open>
  \<^verbatim>\<open>function addToCart(id) {
    const product = products.find(x => x.id === id);
    if (!product) return; // Product not found
    if (!cart[id]) {
      cart[id] = {...product, qty: 0}; // Add new product to cart
    }
    cart[id].qty += 1; // Increment quantity
    persistCart();
    renderCart();
    showMiniAlert(`${escapeHtml(product.name)} agregado`);
  }\<close>
\<close>

definition new_item :: "product \<Rightarrow> cart_item" where
  "new_item p = \<lparr>id' = id' p, name = name p, price = price p, desc = desc p, qty = 0\<rparr>"

definition addToCart :: "int \<Rightarrow> state \<Rightarrow> state" where
  "addToCart i st =
     (case find (\<lambda>x. id' x = i) products of
        None \<Rightarrow> st
      | Some p \<Rightarrow>
          let k = number_toString i;
              c1 = (case get_property (cart st) k of
                      None \<Rightarrow> set_property k (new_item p) (cart st)
                    | Some _ \<Rightarrow> cart st);
              c2 = update_property k (\<lambda>it. it\<lparr>qty := round_double (qty it + 1)\<rparr>) c1
          in showMiniAlert (escapeHtml (name p) @ ascii '' agregado'')
               (renderCart (persistCart (st\<lparr>cart := c2\<rparr>))))"

text \<open>
  The click handler of the buttons of a cart row:
  \<^verbatim>\<open>if (op === 'plus') {
    cart[id].qty++;
  } else if (op === 'minus') {
    cart[id].qty--;
    if (cart[id].qty <= 0) {
      delete cart[id]; // Remove item if quantity drops to 0 or less
    }
  } else if (op === 'remove') {
    delete cart[id]; // Remove item directly
  }
  persistCart();
  renderCart();\<close>
  Reading \<^verbatim>\<open>qty\<close> of \<^verbatim>\<open>undefined\<close> throws a \<^verbatim>\<open>TypeError\<close>.
\<close>

definition cart_item_click :: "jsstring \<Rightarrow> int \<Rightarrow> state \<Rightarrow> js_error + state" where
  "cart_item_click op i st =
     (let k = number_toString i in
      if op = ascii ''plus'' then
        (case get_property (cart st) k of
           None \<Rightarrow> Inl TypeError
         | Some _ \<Rightarrow>
             Inr (renderCart (persistCart
               (st\<lparr>cart :=
                    update_property k (\<lambda>it. it\<lparr>qty := round_double (qty it + 1)\<rparr>)
                      (cart st)\<rparr>))))
      else if op = ascii ''minus'' then
        (case get_property (cart st) k of
           None \<Rightarrow> Inl TypeError
         | Some _ \<Rightarrow>
             let c1 = update_property k (\<lambda>it. it\<lparr>qty := round_double (qty it - 1)\<rparr>)
                        (cart st);
                 c2 = (case get_property c1 k of
                         None \<Rightarrow> c1
                       | Some it \<Rightarrow> if qty it \<le> 0 then delete_property k c1 else c1)
             in Inr (renderCart (persistCart (st\<lparr>cart := c2\<rparr>))))
      else if op = ascii ''remove'' then
        Inr (renderCart (persistCart (st\<lparr>cart := delete_property k (cart st)\<rparr>)))
      else Inr (renderCart (persistCart st)))"

text \<open>
  The two buttons that empty the cart have the same handler:
  \<^verbatim>\<open>if (confirm('...')) {
    cart = {};
    persistCart();
    renderCart();
    showMiniAlert('Carrito vaciado');
  }\<close>
\<close>

definition confirm_text :: jsstring where
  "confirm_text =
     [0xBF] @ ascii ''Est'' @ [0xE1] @ ascii ''s seguro de que quieres vaciar el carrito?''"

definition empty_cart_click :: "bool \<Rightarrow> state \<Rightarrow> state" where
  "empty_cart_click confirmed st =
     (let st1 = st\<lparr>effects := effects st @ [Confirm confirm_text]\<rparr> in
      if confirmed then
        showMiniAlert (ascii ''Carrito vaciado'') (renderCart (persistCart (st1\<lparr>cart := []\<rparr>)))
      else st1)"

subsection \<open>Checkout\<close>

definition empty_cart_text :: jsstring where
  "empty_cart_text =
     ascii ''El carrito est'' @ [0xE1] @ ascii '' vac'' @ [0xED] @ ascii ''o. Por favor, a''
       @ [0xF1] @ ascii ''ade algunos productos antes de comprar.''"

definition popup_text :: jsstring where
  "popup_text =
     ascii ''Por favor, permite las ventanas emergentes para ver el resumen de tu pedido y enviar por WhatsApp.''"

definition html_head :: "jsstring \<Rightarrow> jsstring" where
  "html_head date =
     ascii ''<!doctype html><html><head><meta charset='' @ [0x22] @ ascii ''utf-8'' @ [0x22]
       @ ascii ''><meta name='' @ [0x22] @ ascii ''viewport'' @ [0x22] @ ascii '' content=''
       @ [0x22] @ ascii ''width=device-width,initial-scale=1'' @ [0x22]
       @ ascii ''><title>Resumen de pedido</title><link rel='' @ [0x22] @ ascii ''stylesheet''
       @ [0x22] @ ascii '' href='' @ [0x22] @ ascii ''style.css'' @ [0x22]
       @ ascii ''></head><body class='' @ [0x22] @ ascii ''checkout-summary'' @ [0x22]
       @ ascii ''>''
       @ ascii ''<h1>Resumen de pedido '' @ [0x2014] @ ascii '' Tienda Navide'' @ [0xF1]
       @ ascii ''a</h1><p class='' @ [0x22] @ ascii ''small'' @ [0x22] @ ascii ''>Fecha: ''
       @ date
       @ ascii ''</p><table><thead><tr><th>Producto</th><th>Cantidad</th><th>Precio Unitario</th><th>Subtotal</th></tr></thead><tbody>''"

definition html_row :: "cart_item \<Rightarrow> jsstring" where
  "html_row it =
     ascii ''<tr><td>'' @ escapeHtml (name it) @ ascii ''</td><td>''
       @ toString (Finite (qty it))
       @ ascii ''</td><td>'' @ formatMoney (Finite (price it)) @ ascii ''</td><td>''
       @ formatMoney (js_mul (qty it) (price it)) @ ascii ''</td></tr>''"

definition html_foot :: "number \<Rightarrow> jsstring" where
  "html_foot tot =
     ascii ''</tbody><tfoot><tr><td colspan='' @ [0x22] @ ascii ''3'' @ [0x22]
       @ ascii ''>Total</td><td>'' @ formatMoney tot @ ascii ''</td></tr></tfoot></table>''
       @ ascii ''<p>Gracias por su compra. Para enviar este pedido por WhatsApp haga clic en el bot''
       @ [0xF3] @ ascii ''n abajo.</p>''"

definition html_links :: "jsstring \<Rightarrow> jsstring" where
  "html_links waUrl =
     ascii ''<p><a id='' @ [0x27] @ ascii ''wa-link'' @ [0x27] @ ascii '' href='' @ [0x27]
       @ waUrl
       @ [0x27] @ ascii '' target='' @ [0x27] @ ascii ''_blank'' @ [0x27] @ ascii '' class=''
       @ [0x22] @ ascii ''button'' @ [0x22]
       @ ascii ''>Enviar pedido por WhatsApp</a></p><p><button id='' @ [0x27]
       @ ascii ''close-summary-window'' @ [0x27] @ ascii '' class='' @ [0x22] @ ascii ''button''
       @ [0x22] @ ascii ''>Cerrar Resumen</button></p></body></html>''"

text \<open>\<^verbatim>\<open>let total = 0; items.forEach(it => { ...; total += subtotal; })\<close>.\<close>

definition checkout_total :: "cart_item list \<Rightarrow> number" where
  "checkout_total items =
     foldl (\<lambda>total it. js_add total (js_mul (qty it) (price it))) (Finite 0) items"

text \<open>The lines of the message; the first \<^verbatim>\<open>encodeURIComponent\<close> that throws ends the loop.\<close>

fun wa_lines :: "(jsstring \<Rightarrow> js_error + jsstring) \<Rightarrow> cart_item list \<Rightarrow> js_error + jsstring" where
  "wa_lines enc [] = Inr []"
| "wa_lines enc (it # its) =
     (case enc (toString (Finite (qty it)) @ ascii '' x '' @ name it @ ascii '' - ''
                 @ formatMoney (js_mul (price it) (qty it))) of
        Inl e \<Rightarrow> Inl e
      | Inr line \<Rightarrow>
          (case wa_lines enc its of
             Inl e \<Rightarrow> Inl e
           | Inr rest \<Rightarrow> Inr (line @ ascii ''%0A'' @ rest)))"

definition wa_text ::
  "(jsstring \<Rightarrow> js_error + jsstring) \<Rightarrow> cart_item list \<Rightarrow> number \<Rightarrow> js_error + jsstring" where
  "wa_text enc items tot =
     (case wa_lines enc items of
        Inl e \<Rightarrow> Inl e
      | Inr ls \<Rightarrow>
          (case enc (formatMoney tot) of
             Inl e \<Rightarrow> Inl e
           | Inr t \<Rightarrow>
               Inr ([0xA1] @ ascii ''Hola! Me gustar'' @ [0xED]
                     @ ascii ''a hacer un pedido de la Tienda Navide'' @ [0xF1] @ ascii ''a:%0A%0A''
                     @ ascii ''*Resumen del Pedido:*%0A''
                     @ ls
                     @ ascii ''%0A*Total:* '' @ t @ ascii ''%0A''
                     @ ascii ''%0APor favor, conf'' @ [0xED]
                     @ ascii ''rmame la disponibilidad y los detalles de entrega. '' @ [0xA1]
                     @ ascii ''Gracias!'')))"

text \<open>
  The click handler of the checkout button. An empty cart is answered with
  an alert and nothing else; otherwise the summary page and the message link
  are built and shown in a new window, or, when no window opens, the user is
  told and the link is opened directly.
\<close>

definition checkout :: "env \<Rightarrow> state \<Rightarrow> js_error + state" where
  "checkout e st =
     (let items = entries (cart st) in
      if length items = 0 then Inr (st\<lparr>effects := effects st @ [Alert empty_cart_text]\<rparr>)
      else
        let tot = checkout_total items;
            htmlContent = html_head (now e) @ concat (map html_row items) @ html_foot tot
        in case wa_text (encodeURIComponent e) items tot of
             Inl err \<Rightarrow> Inl err
           | Inr waText \<Rightarrow>
               let waUrl = ascii ''https://wa.me/573237918080?text='' @ waText in
               if popup_allowed e then
                 Inr (st\<lparr>effects := effects st @
                        [WindowOpen None, DocumentWrite (htmlContent @ html_links waUrl),
                         DocumentClose]\<rparr>)
               else
                 Inr (st\<lparr>effects := effects st @
                        [WindowOpen None, Alert popup_text, WindowOpen (Some waUrl)]\<rparr>))"

subsection \<open>Events\<close>

datatype event =
    AddClick int
  | CartItemClick jsstring int
  | EmptyClick bool
  | CheckoutClick

fun handle :: "env \<Rightarrow> event \<Rightarrow> state \<Rightarrow> js_error + state" where
  "handle e (AddClick i) st = Inr (addToCart i st)"
| "handle e (CartItemClick op i) st = cart_item_click op i st"
| "handle e (EmptyClick confirmed) st = Inr (empty_cart_click confirmed st)"
| "handle e CheckoutClick st = checkout e st"

text \<open>An exception ends the handler; the page goes on with the state it had.\<close>

definition step :: "env \<Rightarrow> state \<Rightarrow> event \<Rightarrow> state" where
  "step e st ev = (case handle e ev st of Inl _ \<Rightarrow> st | Inr st' \<Rightarrow> st')"

definition run :: "env \<Rightarrow> state \<Rightarrow> event list \<Rightarrow> state" where
  "run e st evs = foldl (step e) st evs"

subsection \<open>Start-up: \<^verbatim>\<open>JSON.parse\<close> of the stored text\<close>

text \<open>
  The values of JSON. A number carries the exact value of its literal; the
  rounding to a double is left out.
\<close>

datatype json =
    JNull
  | JBool bool
  | JNumber rat
  | JString jsstring
  | JArray "json list"
  | JObject "(jsstring \<times> json) list"

definition is_ws :: "code_unit \<Rightarrow> bool" where
  "is_ws c = (c = 0x20 \<or> c = 0x09 \<or> c = 0x0A \<or> c = 0x0D)"

definition skip_ws :: "jsstring \<Rightarrow> jsstring" where
  "skip_ws s = dropWhile is_ws s"

definition hex_value :: "code_unit \<Rightarrow> nat option" where
  "hex_value c =
     (if 0x30 \<le> c \<and> c \<le> 0x39 then Some (unat c - 48)
      else if 0x61 \<le> c \<and> c \<le> 0x66 then Some (unat c - 87)
      else if 0x41 \<le> c \<and> c \<le> 0x46 then Some (unat c - 55)
      else None)"

definition hex4 :: "code_unit \<Rightarrow> code_unit \<Rightarrow> code_unit \<Rightarrow> code_unit \<Rightarrow> code_unit option" where
  "hex4 a b c d =
     (case hex_value a of None \<Rightarrow> None | Some x \<Rightarrow>
      case hex_value b of None \<Rightarrow> None | Some y \<Rightarrow>
      case hex_value c of None \<Rightarrow> None | Some z \<Rightarrow>
      case hex_value d of None \<Rightarrow> None | Some w \<Rightarrow>
        Some (of_nat (4096 * x + 256 * y + 16 * z + w)))"

text \<open>The character that a two-character escape stands for.\<close>

definition unescape :: "code_unit \<Rightarrow> code_unit option" where
  "unescape e =
     (if e = 0x22 then Some 0x22
      else if e = 0x5C then Some 0x5C
      else if e = 0x2F then Some 0x2F
      else if e = 0x62 then Some 0x08
      else if e = 0x66 then Some 0x0C
      else if e = 0x6E then Some 0x0A
      else if e = 0x72 then Some 0x0D
      else if e = 0x74 then Some 0x09
      else None)"

definition cons_fst :: "'a \<Rightarrow> ('a list \<times> 'b) option \<Rightarrow> ('a list \<times> 'b) option" where
  "cons_fst c r = map_option (\<lambda>(s, rest). (c # s, rest)) r"

text \<open>
  The characters of a string literal after the opening quote, up to the
  closing quote: the string and the rest of the text, or \<open>None\<close> where
  the literal is malformed.
\<close>

fun parse_string_chars :: "jsstring \<Rightarrow> (jsstring \<times> jsstring) option" where
  "parse_string_chars [] = None"
| "parse_string_chars (c # cs) =
     (if c = 0x22 then Some ([], cs)
      else if c = 0x5C then
        (case cs of
           [] \<Rightarrow> None
         | e # r \<Rightarrow>
             if e = 0x75 then
               (case r of
                  h1 # h2 # h3 # h4 # r' \<Rightarrow>
                    (case hex4 h1 h2 h3 h4 of
                       None \<Rightarrow> None
                     | Some u \<Rightarrow> cons_fst u (parse_string_chars r'))
                | _ \<Rightarrow> None)
             else
               (case unescape e of
                  None \<Rightarrow> None
                | Some u \<Rightarrow> cons_fst u (parse_string_chars r)))
      else if c < 0x20 then None
      else cons_fst c (parse_string_chars cs))"

text \<open>The fraction and the exponent of a number, each optional.\<close>

definition parse_fraction :: "jsstring \<Rightarrow> (jsstring \<times> jsstring) option" where
  "parse_fraction s =
     (case s of
        [] \<Rightarrow> Some ([], s)
      | c # r \<Rightarrow>
          if c = 0x2E then
            (if takeWhile is_digit r = [] then None
             else Some (takeWhile is_digit r, dropWhile is_digit r))
          else Some ([], s))"

definition parse_exponent :: "jsstring \<Rightarrow> (int \<times> jsstring) option" where
  "parse_exponent s =
     (case s of
        [] \<Rightarrow> Some (0, s)
      | c # r \<Rightarrow>
          if c = 0x65 \<or> c = 0x45 then
            (let sgn = (case r of [] \<Rightarrow> 1 | d # _ \<Rightarrow> if d = 0x2D then - 1 else 1);
                 r1 = (case r of [] \<Rightarrow> r | d # r' \<Rightarrow> if d = 0x2D \<or> d = 0x2B then r' else r)
             in if takeWhile is_digit r1 = [] then None
                else Some (sgn * int (decimal_value (takeWhile is_digit r1)),
                           dropWhile is_digit r1))
          else Some (0, s))"

definition number_value :: "bool \<Rightarrow> jsstring \<Rightarrow> jsstring \<Rightarrow> int \<Rightarrow> rat" where
  "number_value neg ip fd ex =
     (let m = of_nat (decimal_value ip) + of_nat (decimal_value fd) / 10 ^ length fd;
          v = (if 0 \<le> ex then m * 10 ^ nat ex else m / 10 ^ nat (- ex))
      in if neg then - v else v)"

text \<open>
  A number: an optional minus sign, then \<^verbatim>\<open>0\<close> or digits that do not
  start with \<^verbatim>\<open>0\<close>, then the fraction and the exponent.
\<close>

definition number_sign :: "jsstring \<Rightarrow> bool \<times> jsstring" where
  "number_sign s = (case s of [] \<Rightarrow> (False, s) | c # r \<Rightarrow> if c = 0x2D then (True, r) else (False, s))"

definition integer_digits :: "jsstring \<Rightarrow> jsstring" where
  "integer_digits s =
     (case s of [] \<Rightarrow> [] | c # _ \<Rightarrow> if c = 0x30 then [c] else takeWhile is_digit s)"

definition parse_number :: "jsstring \<Rightarrow> (rat \<times> jsstring) option" where
  "parse_number s =
     (case number_sign s of
        (neg, s1) \<Rightarrow>
          if integer_digits s1 = [] then None
          else
            (case parse_fraction (drop (length (integer_digits s1)) s1) of
               None \<Rightarrow> None
             | Some (fd, s3) \<Rightarrow>
                 (case parse_exponent s3 of
                    None \<Rightarrow> None
                  | Some (ex, s4) \<Rightarrow> Some (number_value neg (integer_digits s1) fd ex, s4))))"

datatype parsed = Parsed json jsstring | Failed | OutOfFuel

text \<open>
  The parser of values, of the members of an object and of the elements of
  an array. Each takes the text with leading white space removed. The first
  argument bounds the number of nested calls; the text is malformed where the
  result is \<open>Failed\<close>. A member whose key is already there replaces the value
  of that key.
\<close>

fun parse_value :: "nat \<Rightarrow> jsstring \<Rightarrow> parsed"
  and parse_members :: "nat \<Rightarrow> (jsstring \<times> json) list \<Rightarrow> jsstring \<Rightarrow> parsed"
  and parse_elements :: "nat \<Rightarrow> json list \<Rightarrow> jsstring \<Rightarrow> parsed"
where
  "parse_value 0 s = OutOfFuel"
| "parse_value (Suc n) s =
     (case s of
        [] \<Rightarrow> Failed
      | c # cs \<Rightarrow>
          if c = 0x7B then
            (case skip_ws cs of
               [] \<Rightarrow> Failed
             | d # r \<Rightarrow> if d = 0x7D then Parsed (JObject []) r else parse_members n [] (d # r))
          else if c = 0x5B then
            (case skip_ws cs of
               [] \<Rightarrow> Failed
             | d # r \<Rightarrow> if d = 0x5D then Parsed (JArray []) r else parse_elements n [] (d # r))
          else if c = 0x22 then
            (case parse_string_chars cs of
               None \<Rightarrow> Failed
             | Some (str, r) \<Rightarrow> Parsed (JString str) r)
          else if c = 0x2D \<or> is_digit c then
            (case parse_number s of
               None \<Rightarrow> Failed
             | Some (x, r) \<Rightarrow> Parsed (JNumber x) r)
          else if take 4 s = ascii ''true'' then Parsed (JBool True) (drop 4 s)
          else if take 5 s = ascii ''false'' then Parsed (JBool False) (drop 5 s)
          else if take 4 s = ascii ''null'' then Parsed JNull (drop 4 s)
          else Failed)"
| "parse_members 0 acc s = OutOfFuel"
| "parse_members (Suc n) acc s =
     (case s of
        [] \<Rightarrow> Failed
      | c # cs \<Rightarrow>
          if c \<noteq> 0x22 then Failed
          else
            (case parse_string_chars cs of
               None \<Rightarrow> Failed
             | Some (k, r) \<Rightarrow>
                 (case skip_ws r of
                    [] \<Rightarrow> Failed
                  | d # r1 \<Rightarrow>
                      if d \<noteq> 0x3A then Failed
                      else
                        (case parse_value n (skip_ws r1) of
                           Parsed v r2 \<Rightarrow>
                             (case skip_ws r2 of
                                [] \<Rightarrow> Failed
                              | e # r3 \<Rightarrow>
                                  if e = 0x2C then
                                    parse_members n (set_property k v acc) (skip_ws r3)
                                  else if e = 0x7D then
                                    Parsed (JObject (set_property k v acc)) r3
                                  else Failed)
                         | Failed \<Rightarrow> Failed
                         | OutOfFuel \<Rightarrow> OutOfFuel))))"
| "parse_elements 0 acc s = OutOfFuel"
| "parse_elements (Suc n) acc s =
     (case parse_value n s of
        Parsed v r \<Rightarrow>
          (case skip_ws r of
             [] \<Rightarrow> Failed
           | e # r1 \<Rightarrow>
               if e = 0x2C then parse_elements n (acc @ [v]) (skip_ws r1)
               else if e = 0x5D then Parsed (JArray (acc @ [v])) r1
               else Failed)
      | Failed \<Rightarrow> Failed
      | OutOfFuel \<Rightarrow> OutOfFuel)"

text \<open>
  \<^verbatim>\<open>JSON.parse(text)\<close>: the value of the text, or a \<^verbatim>\<open>SyntaxError\<close>. Twice
  the length of the text bounds the nested calls, so that \<open>None\<close> (the
  bound was too small) does not occur.
\<close>

definition JSON_parse :: "jsstring \<Rightarrow> (js_error + json) option" where
  "JSON_parse s =
     (case parse_value (Suc (2 * length s)) (skip_ws s) of
        Parsed v r \<Rightarrow> Some (if skip_ws r = [] then Inr v else Inl SyntaxError)
      | Failed \<Rightarrow> Some (Inl SyntaxError)
      | OutOfFuel \<Rightarrow> None)"

text \<open>
  \<^verbatim>\<open>let cart = JSON.parse(localStorage.getItem('tienda_cart') || '{}');\<close>
  \<^verbatim>\<open>getItem\<close> yields \<^verbatim>\<open>null\<close> for a slot that was never written.
\<close>

definition decode :: "jsstring option \<Rightarrow> (js_error + json) option" where
  "decode stored =
     JSON_parse (case stored of None \<Rightarrow> ascii ''{}'' | Some s \<Rightarrow> if s = [] then ascii ''{}'' else s)"

text \<open>The cart and its entries as values of JSON.\<close>

definition json_of_item :: "cart_item \<Rightarrow> json" where
  "json_of_item it =
     JObject
       [(ascii ''id'', JNumber (of_int (id' it))), (ascii ''name'', JString (name it)),
        (ascii ''price'', JNumber (of_int (price it))), (ascii ''desc'', JString (desc it)),
        (ascii ''qty'', JNumber (of_int (qty it)))]"

definition json_of_cart :: "cart \<Rightarrow> json" where
  "json_of_cart c = JObject (map (\<lambda>(k, it). (k, json_of_item it)) c)"

subsection \<open>The properties stated\<close>

text \<open>
  Digits in clusters of three counted from the least significant one: the
  digits are reversed, cut into clusters of three (the last one may be
  shorter), the clusters are joined with the separator, and the result is
  reversed again.
\<close>

fun clusters3 :: "'a list \<Rightarrow> 'a list list" where
  "clusters3 xs = (if length xs \<le> 3 then [xs] else take 3 xs # clusters3 (drop 3 xs))"

declare clusters3.simps [simp del]

definition group_thousands :: "jsstring \<Rightarrow> jsstring" where
  "group_thousands ds = rev (join [0x2E] (clusters3 (rev ds)))"

text \<open>The entity that stands for a character in markup.\<close>

definition entity :: "code_unit \<Rightarrow> jsstring" where
  "entity c =
     (if c = 0x26 then ascii ''&amp;''
      else if c = 0x3C then ascii ''&lt;''
      else if c = 0x3E then ascii ''&gt;''
      else if c = 0x22 then ascii ''&quot;''
      else if c = 0x27 then ascii ''&#039;''
      else [c])"

text \<open>The characters a value can begin with.\<close>

definition value_start :: "code_unit \<Rightarrow> bool" where
  "value_start c =
     (c = 0x7B \<or> c = 0x5B \<or> c = 0x22 \<or> c = 0x2D \<or> is_digit c \<or> c = 0x74 \<or> c = 0x66 \<or> c = 0x6E)"

text \<open>What follows a number inside the text of a cart: a comma or a closing brace.\<close>

definition number_end :: "jsstring \<Rightarrow> bool" where
  "number_end t = (case t of [] \<Rightarrow> True | c # _ \<Rightarrow> c = 0x2C \<or> c = 0x7D)"

text \<open>
  The order of the own properties of an object: array indices in ascending
  order, then the other keys; no key twice.
\<close>

definition key_before :: "jsstring \<Rightarrow> jsstring \<Rightarrow> bool" where
  "key_before k1 k2 =
     (case array_index k1 of
        Some a \<Rightarrow> (case array_index k2 of Some b \<Rightarrow> a < b | None \<Rightarrow> True)
      | None \<Rightarrow> array_index k2 = None)"

definition own_keys_ordered :: "'v js_object \<Rightarrow> bool" where
  "own_keys_ordered ps = (distinct (map fst ps) \<and> sorted_wrt key_before (map fst ps))"

text \<open>The text of one member of the stored cart.\<close>

definition member_text :: "jsstring \<times> cart_item \<Rightarrow> jsstring" where
  "member_text = (\<lambda>(k, it). QuoteJSONString k @ 0x3A # stringify_item it)"


text \<open>Every key is the id of its entry, and that id is the id of a product of the catalogue.\<close>

definition cart_invariant :: "cart \<Rightarrow> bool" where
  "cart_invariant c =
     list_all (\<lambda>(k, it). k = number_toString (id' it) \<and> id' it \<in> set (map id' products)) c"

section \<open>Doubles\<close>

lemma bit_length_upper: "v < 2 ^ bit_length v"
proof (induction v rule: bit_length.induct)
  case (1 n)
  show ?case
  proof (cases "n = 0")
    case True
    then show ?thesis by (simp add: bit_length.simps)
  next
    case False
    from 1 [OF False] have "n div 2 < 2 ^ bit_length (n div 2)" .
    then have "n < 2 * 2 ^ bit_length (n div 2)" by linarith
    with False show ?thesis by (subst bit_length.simps) simp
  qed
qed

lemma bit_length_lower: "0 < v \<Longrightarrow> 2 ^ (bit_length v - 1) \<le> v"
proof (induction v rule: bit_length.induct)
  case (1 n)
  then have n: "n \<noteq> 0" by simp
  show ?case
  proof (cases "n div 2 = 0")
    case True
    then have "bit_length n = 1"
      using n by (simp add: bit_length.simps [of n] bit_length.simps [of 0])
    then show ?thesis using n by simp
  next
    case False
    then have "2 ^ (bit_length (n div 2) - 1) \<le> n div 2" using 1(1) [OF n] by simp
    moreover have "0 < bit_length (n div 2)" using False by (subst bit_length.simps) simp
    moreover have "bit_length n = Suc (bit_length (n div 2))"
      using n by (subst bit_length.simps) simp
    ultimately have "2 ^ (bit_length n - 1) \<le> 2 * (n div 2)"
      by (cases "bit_length (n div 2)") simp_all
    then show ?thesis by linarith
  qed
qed

lemma bit_length_le: "v < 2 ^ k \<Longrightarrow> bit_length v \<le> k"
proof (rule ccontr)
  assume v: "v < 2 ^ k" and "\<not> bit_length v \<le> k"
  then have k: "k \<le> bit_length v - 1" by simp
  then have "0 < v"
    using \<open>\<not> bit_length v \<le> k\<close> by (cases "v = 0") (simp_all add: bit_length.simps)
  then have "2 ^ (bit_length v - 1) \<le> v" by (rule bit_length_lower)
  moreover have "(2::nat) ^ k \<le> 2 ^ (bit_length v - 1)" using k by (simp add: power_increasing)
  ultimately show False using v by linarith
qed

lemma bit_length_gt: "2 ^ k \<le> v \<Longrightarrow> k < bit_length v"
proof -
  assume "2 ^ k \<le> v"
  then have "(2::nat) ^ k < 2 ^ bit_length v" using bit_length_upper [of v] by linarith
  then show ?thesis by (rule power_less_imp_less_exp [rotated]) simp
qed

lemma bit_length_power: "bit_length (2 ^ k) = Suc k"
  by (induction k)
     (simp_all add: bit_length.simps [of "2 * _"] bit_length.simps [of 1] bit_length.simps [of 0]
        bit_length.simps [of "Suc 0"])

text \<open>Every natural number up to \<open>2\<^sup>5\<^sup>3\<close> is a double.\<close>

lemma round_nat_small: "v < 2 ^ 53 \<Longrightarrow> round_nat v = v"
proof -
  assume "v < 2 ^ 53"
  then have "bit_length v - 53 = 0" using bit_length_le [of v 53] by simp
  then show ?thesis by (simp add: round_nat_def)
qed

lemma round_nat_exact: "v \<le> 2 ^ 53 \<Longrightarrow> round_nat v = v"
proof (cases "v = 2 ^ 53")
  case True
  have "bit_length v = Suc 53" unfolding True by (rule bit_length_power)
  then show ?thesis by (simp add: round_nat_def True)
next
  case False
  assume "v \<le> 2 ^ 53"
  with False have "v < 2 ^ 53" by simp
  then show ?thesis by (rule round_nat_small)
qed

text \<open>Rounding does not take a number from \<open>2\<^sup>5\<^sup>3\<close> on below \<open>2\<^sup>5\<^sup>3\<close>.\<close>

lemma round_nat_large:
  assumes "2 ^ 53 \<le> v"
  shows "2 ^ 53 \<le> round_nat v"
proof -
  define e where "e = bit_length v - 53"
  have b: "53 < bit_length v" using assms by (rule bit_length_gt)
  then have e: "0 < e" and be: "bit_length v - 1 = e + 52" by (simp_all add: e_def)
  have "0 < v" using assms by (cases "v = 0") simp_all
  then have "2 ^ (e + 52) \<le> v" using bit_length_lower [of v] be by simp
  then have "2 ^ 52 * 2 ^ e \<le> v" by (simp add: power_add mult.commute)
  then have q: "2 ^ 52 \<le> v div 2 ^ e"
    by (simp add: less_eq_div_iff_mult_less_eq)
  have "(2::nat) ^ 53 \<le> 2 ^ 52 * 2 ^ e" using e by (cases e) simp_all
  also have "\<dots> \<le> (v div 2 ^ e) * 2 ^ e" using q by simp
  finally have low: "2 ^ 53 \<le> (v div 2 ^ e) * 2 ^ e" .
  then have "2 ^ 53 \<le> (v div 2 ^ e + 1) * 2 ^ e" by (simp add: add_mult_distrib)
  with low show ?thesis unfolding round_nat_def e_def [symmetric] by (simp add: Let_def)
qed


lemma round_double_exact: "\<bar>x\<bar> \<le> 2 ^ 53 \<Longrightarrow> round_double x = x"
proof -
  assume x: "\<bar>x\<bar> \<le> 2 ^ 53"
  then have "nat \<bar>x\<bar> \<le> 2 ^ 53" by (simp add: nat_le_iff)
  then have "round_nat (nat \<bar>x\<bar>) = nat \<bar>x\<bar>" by (rule round_nat_exact)
  then show ?thesis by (cases "x < 0") (simp_all add: round_double_def abs_if)
qed



lemma round_double_safe: "\<bar>x\<bar> \<le> MAX_SAFE_INTEGER \<Longrightarrow> round_double (x + 1) = x + 1"
  by (rule round_double_exact) (simp add: MAX_SAFE_INTEGER_def)

lemma to_number_exact: "\<bar>x\<bar> \<le> 2 ^ 53 \<Longrightarrow> to_number x = Finite x"
proof -
  assume x: "\<bar>x\<bar> \<le> 2 ^ 53"
  have "(2::int) ^ 53 < 2 ^ 1024" by (rule power_strict_increasing) simp_all
  then show ?thesis
    using x
    by (simp add: to_number_def round_double_exact [OF x] Let_def abs_le_iff
        del: power_strict_increasing_iff)
qed

lemma to_number_safe: "\<bar>x\<bar> \<le> MAX_SAFE_INTEGER \<Longrightarrow> to_number x = Finite x"
  by (rule to_number_exact) (simp add: MAX_SAFE_INTEGER_def)

text \<open>The shortest decimal of a natural number below \<open>2\<^sup>5\<^sup>3\<close> is the number itself.\<close>

lemma shortest_decimal_safe: "x < 2 ^ 53 \<Longrightarrow> shortest_decimal p x = x"
proof (induction p)
  case 0
  show ?case by simp
next
  case (Suc p)
  define u :: nat where "u = 10 ^ Suc p"
  define lo where "lo = (x div u) * u"
  have u: "0 < u" by (simp add: u_def)
  have lo: "lo \<le> x" by (simp add: lo_def)
  have hi: "x < lo + u" using u unfolding lo_def
    by (metis div_mult_mod_eq mod_less_divisor nat_add_left_cancel_less)
  have rl: "round_nat lo = lo" using lo Suc.prems by (intro round_nat_small) simp
  have rh: "round_nat (lo + u) \<noteq> x"
  proof (cases "lo + u < 2 ^ 53")
    case True
    then show ?thesis using hi round_nat_small [OF True] by simp
  next
    case False
    then have "2 ^ 53 \<le> round_nat (lo + u)" by (intro round_nat_large) simp
    then show ?thesis using Suc.prems by simp
  qed
  show ?case
    using rl rh Suc.IH [OF Suc.prems]
    unfolding shortest_decimal.simps u_def [symmetric] Let_def lo_def [symmetric]
    by auto
qed

lemma length_digits_of_nat: "0 < k \<Longrightarrow> v < 10 ^ k \<Longrightarrow> length (digits_of_nat v) \<le> k"
proof (induction k arbitrary: v)
  case 0
  then show ?case by simp
next
  case (Suc k)
  show ?case
  proof (cases "v < 10")
    case True
    then show ?thesis by (subst digits_of_nat.simps) simp
  next
    case False
    then have k: "0 < k" using Suc.prems by (cases k) simp_all
    have "v div 10 < 10 ^ k" using Suc.prems by (simp add: less_mult_imp_div_less mult.commute)
    then have "length (digits_of_nat (v div 10)) \<le> k" using Suc.IH k by simp
    with False show ?thesis by (subst digits_of_nat.simps) simp
  qed
qed

lemma nat_toString_safe: "v < 2 ^ 53 \<Longrightarrow> nat_toString v = digits_of_nat v"
proof -
  assume v: "v < 2 ^ 53"
  then have "v < 10 ^ 16" by simp
  then have "length (digits_of_nat v) \<le> 16" by (intro length_digits_of_nat) simp_all
  then show ?thesis by (simp add: nat_toString_def shortest_decimal_safe [OF v] render_digits_def)
qed

text \<open>The text of a safe integer is its digits.\<close>

lemma toString_safe: "\<bar>x\<bar> \<le> MAX_SAFE_INTEGER \<Longrightarrow> toString (Finite x) = number_toString x"
proof -
  assume "\<bar>x\<bar> \<le> MAX_SAFE_INTEGER"
  then have "nat \<bar>x\<bar> < 2 ^ 53" by (simp add: MAX_SAFE_INTEGER_def nat_less_iff)
  then have "nat_toString (nat \<bar>x\<bar>) = digits_of_nat (nat \<bar>x\<bar>)" by (rule nat_toString_safe)
  then show ?thesis by (cases "x < 0") (simp_all add: number_toString_def abs_if)
qed

text \<open>The text of \<open>10\<^sup>2\<^sup>1\<close>, the least integer that is printed with an exponent.\<close>

lemma shortest_numeral:
  "shortest_decimal (numeral k) x = shortest_decimal (Suc (pred_numeral k)) x"
  by (simp add: numeral_eq_Suc)

lemma round_nat_1e21: "round_nat 1000000000000000000000 = 1000000000000000000000"
  by (simp add: round_nat_def bit_length.simps Let_def)

lemma round_nat_2e21: "round_nat 2000000000000000000000 \<noteq> 1000000000000000000000"
  by (simp add: round_nat_def bit_length.simps Let_def)

lemma shortest_decimal_1e21:
  "shortest_decimal 21 1000000000000000000000 = 1000000000000000000000"
  by (simp add: shortest_numeral round_nat_1e21 round_nat_2e21 Let_def del: Suc_numeral)

lemma digits_of_nat_1e21:
  "digits_of_nat 1000000000000000000000 = ascii ''1000000000000000000000''"
  by (simp add: digits_of_nat.simps digit_char_def ascii_def)

lemma length_1e21: "length (ascii ''1000000000000000000000'') - 1 = 21"
  by (simp add: ascii_def)

lemma long_1e21: "\<not> length (ascii ''1000000000000000000000'') \<le> 21"
  by (simp add: ascii_def)

lemma digits_of_nat_21: "digits_of_nat 21 = ascii ''21''"
  by (simp add: digits_of_nat.simps digit_char_def ascii_def)

lemma strip_zeros_1e21: "strip_zeros (ascii ''1000000000000000000000'') = ascii ''1''"
  by (simp add: strip_zeros_def ascii_def)

lemma nat_toString_1e21:
  "nat_toString 1000000000000000000000 = render_digits (ascii ''1000000000000000000000'')"
  unfolding nat_toString_def digits_of_nat_1e21 length_1e21 shortest_decimal_1e21 ..

lemma render_digits_1e21: "render_digits (ascii ''1000000000000000000000'') = ascii ''1e+21''"
  by (simp only: render_digits_def long_1e21 length_1e21 digits_of_nat_21 strip_zeros_1e21
        Let_def if_False)
     (simp add: ascii_def)

lemma toString_1e21: "toString (Finite 1000000000000000000000) = ascii ''1e+21''"
  by (simp add: nat_toString_1e21 render_digits_1e21)

section \<open>Money formatting\<close>

lemma unat_digit_char: "d < 10 \<Longrightarrow> unat (digit_char d) = 48 + d"
  by (simp add: digit_char_def unat_word_ariths unat_of_nat)

lemma is_digit_digit_char: "d < 10 \<Longrightarrow> is_digit (digit_char d)"
  by (simp add: is_digit_def word_le_nat_alt unat_digit_char)

lemma is_digit_word_char: "is_digit c \<Longrightarrow> is_word_char c"
  by (simp add: is_digit_def is_word_char_def)

lemma digits_of_nat_digits: "list_all is_digit (digits_of_nat n)"
  by (induction n rule: digits_of_nat.induct)
     (subst digits_of_nat.simps, simp add: is_digit_digit_char)

lemma digits_of_nat_nonempty: "digits_of_nat n \<noteq> []"
  by (subst digits_of_nat.simps) simp

lemma decimal_value_snoc: "decimal_value (ds @ [c]) = 10 * decimal_value ds + (unat c - 48)"
  by (simp add: decimal_value_def)

lemma decimal_value_digits_of_nat: "decimal_value (digits_of_nat n) = n"
proof (induction n rule: digits_of_nat.induct)
  case (1 n)
  show ?case
  proof (cases "n < 10")
    case True
    then show ?thesis
      by (subst digits_of_nat.simps) (simp add: decimal_value_def unat_digit_char)
  next
    case False
    with 1 show ?thesis
      by (subst digits_of_nat.simps) (simp add: decimal_value_snoc unat_digit_char)
  qed
qed

lemma dvd3_Suc3: "3 dvd Suc (Suc (Suc n)) \<longleftrightarrow> 3 dvd n"
  by presburger

lemma not_dvd3_Suc2: "\<not> 3 dvd Suc (Suc 0)"
  by presburger

text \<open>On digits alone the look-ahead succeeds where the rest splits into groups of three.\<close>

lemma digit_groups_ahead_length:
  "list_all is_digit ds \<Longrightarrow> digit_groups_ahead ds \<longleftrightarrow> ds \<noteq> [] \<and> 3 dvd length ds"
proof (induction ds rule: digit_groups_ahead.induct)
  case (1 a b c r)
  then have ih: "digit_groups_ahead r \<longleftrightarrow> r \<noteq> [] \<and> 3 dvd length r"
    by simp
  from "1.prems" have abc: "is_digit a" "is_digit b" "is_digit c"
    by simp_all
  show ?case
  proof (cases r)
    case Nil
    with abc show ?thesis by (simp add: dvd3_Suc3)
  next
    case (Cons d r')
    with "1.prems" have "is_digit d" by simp
    with abc ih Cons show ?thesis
      by (simp only: digit_groups_ahead.simps list.case length_Cons dvd3_Suc3) simp
  qed
qed (simp_all add: not_dvd3_Suc2)

lemma digit_groups_ahead_short: "length ds < 3 \<Longrightarrow> \<not> digit_groups_ahead ds"
  by (cases ds rule: digit_groups_ahead.cases) simp_all

lemma insert_separators_short:
  "list_all is_digit ds \<Longrightarrow> length ds < 3 \<Longrightarrow> insert_separators p ds = ds"
proof (induction ds arbitrary: p)
  case Nil
  then show ?case by simp
next
  case (Cons c cs)
  then show ?case by (simp add: digit_groups_ahead_short)
qed

lemma insert_separators_snoc3:
  "list_all is_digit (xs @ [a, b, c]) \<Longrightarrow> xs \<noteq> [] \<Longrightarrow>
   insert_separators p (xs @ [a, b, c]) = insert_separators p xs @ [0x2E, a, b, c]"
proof (induction xs arbitrary: p)
  case Nil
  then show ?case by simp
next
  case (Cons x xs)
  show ?case
  proof (cases xs)
    case Nil
    with Cons.prems show ?thesis
      by (simp add: digit_groups_ahead_length not_word_boundary_def is_digit_word_char)
  next
    case (Cons y ys)
    have "3 dvd length ((x # xs) @ [a, b, c]) \<longleftrightarrow> 3 dvd length (x # xs)"
      by (simp add: dvd3_Suc3)
    moreover have "insert_separators (Some x) (xs @ [a, b, c]) =
        insert_separators (Some x) xs @ [0x2E, a, b, c]"
      using Cons Cons.prems by (intro Cons.IH) simp_all
    moreover have "list_all is_digit (x # xs)" "list_all is_digit (x # xs @ [a, b, c])"
      using Cons.prems by simp_all
    ultimately show ?thesis
      by (simp add: digit_groups_ahead_length)
  qed
qed

lemma group_thousands_snoc3:
  "xs \<noteq> [] \<Longrightarrow> group_thousands (xs @ [a, b, c]) = group_thousands xs @ [0x2E, a, b, c]"
proof -
  assume "xs \<noteq> []"
  then have "clusters3 (rev (xs @ [a, b, c])) = [c, b, a] # clusters3 (rev xs)"
    by (subst clusters3.simps) simp
  moreover have "clusters3 (rev xs) \<noteq> []"
    by (subst clusters3.simps) simp
  then obtain y ys where "clusters3 (rev xs) = y # ys"
    by (cases "clusters3 (rev xs)") auto
  ultimately show ?thesis
    by (simp add: group_thousands_def)
qed

lemma group_thousands_short: "length ds \<le> 3 \<Longrightarrow> group_thousands ds = ds"
  by (simp add: group_thousands_def clusters3.simps)

lemma insert_separators_first:
  "list_all is_digit ds \<Longrightarrow> length ds \<le> 3 \<Longrightarrow> insert_separators None ds = ds"
  by (cases ds) (simp_all add: not_word_boundary_def is_digit_word_char insert_separators_short)

text \<open>A list longer than three elements ends in three elements after a first part.\<close>

lemma split_last3:
  assumes "\<not> length ds \<le> 3"
  obtains xs a b c where "ds = xs @ [a, b, c]" and "xs \<noteq> []"
proof -
  have "length (drop (length ds - 3) ds) = Suc (Suc (Suc 0))"
    using assms by simp
  then obtain a b c where abc: "drop (length ds - 3) ds = [a, b, c]"
    by (auto simp only: length_Suc_conv length_0_conv)
  have "ds = take (length ds - 3) ds @ [a, b, c]"
    unfolding abc [symmetric] by simp
  moreover have "take (length ds - 3) ds \<noteq> []"
    using assms by auto
  ultimately show thesis
    by (rule that)
qed

lemma insert_separators_group:
  "list_all is_digit ds \<Longrightarrow> insert_separators None ds = group_thousands ds"
proof (induction "length ds" arbitrary: ds rule: less_induct)
  case less
  show ?case
  proof (cases "length ds \<le> 3")
    case True
    with less.prems show ?thesis
      by (simp add: insert_separators_first group_thousands_short)
  next
    case False
    then obtain xs a b c where ds: "ds = xs @ [a, b, c]" and ne: "xs \<noteq> []"
      by (rule split_last3)
    have "length xs < length ds"
      by (simp add: ds)
    moreover have "list_all is_digit xs"
      using less.prems by (simp add: ds)
    ultimately have "insert_separators None xs = group_thousands xs"
      by (rule less.hyps)
    with less.prems ne show ?thesis
      by (simp add: ds insert_separators_snoc3 group_thousands_snoc3)
  qed
qed

text \<open>Taking the separators out of the grouped digits gives the digits back.\<close>

lemma group_thousands_strip:
  "list_all is_digit ds \<Longrightarrow> filter (\<lambda>c. c \<noteq> 0x2E) (group_thousands ds) = ds"
proof (induction "length ds" arbitrary: ds rule: less_induct)
  case less
  show ?case
  proof (cases "length ds \<le> 3")
    case True
    have "filter (\<lambda>c. c \<noteq> 0x2E) ds = ds"
      using less.prems by (induction ds) (auto simp: is_digit_def)
    with True show ?thesis
      by (simp add: group_thousands_short)
  next
    case False
    then obtain xs a b c where ds: "ds = xs @ [a, b, c]" and ne: "xs \<noteq> []"
      by (rule split_last3)
    have "length xs < length ds"
      by (simp add: ds)
    moreover have "list_all is_digit xs"
      using less.prems by (simp add: ds)
    ultimately have "filter (\<lambda>c. c \<noteq> 0x2E) (group_thousands xs) = xs"
      by (rule less.hyps)
    moreover have "a \<noteq> 0x2E" "b \<noteq> 0x2E" "c \<noteq> 0x2E"
      using less.prems by (auto simp: ds is_digit_def)
    ultimately show ?thesis
      using ne by (simp add: ds group_thousands_snoc3)
  qed
qed

lemma formatMoney_safe:
  "\<bar>n\<bar> \<le> MAX_SAFE_INTEGER \<Longrightarrow>
   formatMoney (Finite n) = 0x24 # insert_separators None (number_toString n)"
  by (simp only: formatMoney_def toString_safe)

lemma formatMoney_grouped:
  "0 \<le> n \<Longrightarrow> n \<le> MAX_SAFE_INTEGER \<Longrightarrow>
   formatMoney (Finite n) = 0x24 # group_thousands (digits_of_nat (nat n))"
  by (simp add: formatMoney_safe number_toString_def insert_separators_group
      digits_of_nat_digits)

lemma formatMoney_12000: "formatMoney (Finite 12000) = 0x24 # ascii ''12.000''"
  by (simp add: formatMoney_safe MAX_SAFE_INTEGER_def number_toString_def digits_of_nat.simps
      digit_char_def ascii_def is_digit_def is_word_char_def not_word_boundary_def)

lemma formatMoney_1000000: "formatMoney (Finite 1000000) = 0x24 # ascii ''1.000.000''"
  by (simp add: formatMoney_safe MAX_SAFE_INTEGER_def number_toString_def digits_of_nat.simps
      digit_char_def ascii_def is_digit_def is_word_char_def not_word_boundary_def)

lemma formatMoney_1e21: "formatMoney (Finite 1000000000000000000000) = ascii ''$1e+21''"
  by (simp only: formatMoney_def toString_1e21)
     (simp add: ascii_def is_digit_def is_word_char_def not_word_boundary_def)

lemma group_thousands_1e21:
  "0x24 # group_thousands (digits_of_nat (nat 1000000000000000000000)) =
     ascii ''$1.000.000.000.000.000.000.000''"
  by (simp add: digits_of_nat_1e21)
     (simp add: group_thousands_def clusters3.simps ascii_def)

text \<open>
  C9 as it is stated (every non-negative integer amount is rendered as the
  prefix and its decimal digits in clusters of three) fails from
  \<open>10\<^sup>2\<^sup>1\<close> on, where \<^verbatim>\<open>toString\<close> prints an exponent: the
  amount \<open>10\<^sup>2\<^sup>1\<close> is rendered as \<^verbatim>\<open>$1e+21\<close>, not as
  \<^verbatim>\<open>$1.000.000.000.000.000.000.000\<close>.
\<close>

theorem formatMoney_exponent_counterexample:
  "formatMoney (Finite 1000000000000000000000) = ascii ''$1e+21'' \<and>
   0x24 # group_thousands (digits_of_nat (nat 1000000000000000000000)) =
     ascii ''$1.000.000.000.000.000.000.000'' \<and>
   formatMoney (Finite 1000000000000000000000) \<noteq>
     0x24 # group_thousands (digits_of_nat (nat 1000000000000000000000))"
  by (simp only: formatMoney_1e21 group_thousands_1e21) (simp add: ascii_def)

text \<open>
  C9, for the amounts that are safe integers. For an integer amount from 0 to
  \<open>2\<^sup>5\<^sup>3 - 1\<close>, \<open>formatMoney\<close> returns the prefix \<^verbatim>\<open>$\<close> followed
  by the decimal digits of the amount in clusters of three counted from the
  least significant digit, with the separator \<^verbatim>\<open>.\<close> between clusters:
  the digits are decimal digits whose value is the amount, and taking the
  separators out leaves the prefix and these digits, so that no decimal
  places are added. 12000 is rendered as the prefix and \<^verbatim>\<open>12.000\<close>,
  1000000 as the prefix and \<^verbatim>\<open>1.000.000\<close>.
\<close>

theorem formatMoney_groups_of_three:
  "0 \<le> n \<Longrightarrow> n \<le> MAX_SAFE_INTEGER \<Longrightarrow>
     formatMoney (Finite n) = 0x24 # group_thousands (digits_of_nat (nat n)) \<and>
     list_all is_digit (digits_of_nat (nat n)) \<and>
     int (decimal_value (digits_of_nat (nat n))) = n \<and>
     filter (\<lambda>c. c \<noteq> 0x2E) (formatMoney (Finite n)) = 0x24 # digits_of_nat (nat n) \<and>
     formatMoney (Finite 12000) = 0x24 # ascii ''12.000'' \<and>
     formatMoney (Finite 1000000) = 0x24 # ascii ''1.000.000''"
  by (simp add: formatMoney_grouped digits_of_nat_digits decimal_value_digits_of_nat
      group_thousands_strip formatMoney_12000 formatMoney_1000000)

theorem formatMoney_groups_of_three_witness:
  "(0::int) \<le> 30000 \<and> 30000 \<le> MAX_SAFE_INTEGER \<and>
   formatMoney (Finite 30000) = 0x24 # ascii ''30.000''"
  using formatMoney_groups_of_three [of 30000]
  by (simp add: MAX_SAFE_INTEGER_def group_thousands_def clusters3.simps digits_of_nat.simps
      digit_char_def ascii_def)

section \<open>Text escaping\<close>

lemma replace_all_char_concat:
  "replace_all_char c r (concat (map f s)) = concat (map (\<lambda>x. replace_all_char c r (f x)) s)"
  by (induction s) (simp_all add: replace_all_char_def)

lemma escapeHtml_entity: "escapeHtml s = concat (map entity s)"
proof -
  have a: "replace_all_char 0x26 (ascii ''&amp;'') s =
      concat (map (\<lambda>x. if x = 0x26 then ascii ''&amp;'' else [x]) s)"
    by (simp add: replace_all_char_def)
  have "\<And>x. replace_all_char 0x27 (ascii ''&#039;'')
       (replace_all_char 0x22 (ascii ''&quot;'')
         (replace_all_char 0x3E (ascii ''&gt;'')
           (replace_all_char 0x3C (ascii ''&lt;'')
             (if x = 0x26 then ascii ''&amp;'' else [x])))) = entity x"
    by (simp add: replace_all_char_def entity_def ascii_def)
  then show ?thesis
    unfolding escapeHtml_def a replace_all_char_concat by simp
qed

text \<open>
  C10. For every string \<open>s\<close>, \<open>escapeHtml s\<close> is \<open>s\<close> with each of the five
  characters ampersand, less-than, greater-than, double quote and single quote
  replaced by its entity and every other character left as it is, in the
  same order.
\<close>

theorem escapeHtml_maps_five_characters:
  "escapeHtml s = concat (map entity s) \<and>
   entity 0x26 = ascii ''&amp;'' \<and> entity 0x3C = ascii ''&lt;'' \<and>
   entity 0x3E = ascii ''&gt;'' \<and> entity 0x22 = ascii ''&quot;'' \<and>
   entity 0x27 = ascii ''&#039;'' \<and>
   (\<forall>c. c \<notin> {0x26, 0x3C, 0x3E, 0x22, 0x27} \<longrightarrow> entity c = [c])"
  by (simp add: escapeHtml_entity) (simp add: entity_def)

theorem escapeHtml_maps_five_characters_witness:
  "escapeHtml (ascii ''<b>&'' @ [0x27, 0x22]) =
     ascii ''&lt;b&gt;&amp;&#039;&quot;''"
  using escapeHtml_maps_five_characters [of "ascii ''<b>&'' @ [0x27, 0x22]"]
  by (simp add: entity_def ascii_def)

section \<open>Objects and the catalogue\<close>

lemma get_update_property:
  "get_property (update_property k f ps) k' =
     (if k' = k then map_option f (get_property ps k) else get_property ps k')"
  by (induction ps) (auto simp: get_property_def)

lemma update_property_absent: "map_of ps k = None \<Longrightarrow> update_property k f ps = ps"
  by (induction ps) (auto split: if_splits)





lemma map_of_insert_index:
  "map_of ps k = None \<Longrightarrow>
   map_of (insert_index n k v ps) k' = (if k' = k then Some v else map_of ps k')"
  by (induction ps) (auto split: option.splits if_splits)

lemma set_insert_index: "set (insert_index n k v ps) = insert (k, v) (set ps)"
  by (induction ps) (auto split: option.splits if_splits)

lemma update_insert_index:
  "map_of ps k = None \<Longrightarrow>
   update_property k f (insert_index n k v ps) = insert_index n k (f v) ps"
  by (induction ps) (auto split: option.splits if_splits)

lemma update_snoc:
  "map_of ps k = None \<Longrightarrow> update_property k f (ps @ [(k, v)]) = ps @ [(k, f v)]"
  by (induction ps) (auto split: if_splits)

lemma map_of_update_const:
  "map_of (update_property k (\<lambda>_. v) ps) k' =
     (if k' = k \<and> map_of ps k \<noteq> None then Some v else map_of ps k')"
  by (induction ps) auto

lemma get_set_property:
  "get_property (set_property k v ps) k' = (if k' = k then Some v else get_property ps k')"
  by (auto simp: get_property_def set_property_def map_of_insert_index map_of_update_const
      map_add_def split: option.splits)

lemma update_set_property:
  "map_of ps k = None \<Longrightarrow> update_property k f (set_property k v ps) = set_property k (f v) ps"
  by (simp add: set_property_def update_insert_index update_snoc split: option.splits)



lemma cart_persistCart [simp]: "cart (persistCart st) = cart st"
  by (simp add: persistCart_def)

lemma cart_renderCart [simp]: "cart (renderCart st) = cart st"
  by (simp add: renderCart_def)

lemma cart_showMiniAlert [simp]: "cart (showMiniAlert t st) = cart st"
  by (simp add: showMiniAlert_def)

lemma products_ids: "map id' products = [1, 2, 3, 4, 5, 6, 7, 8]"
  by (simp add: products_def)

lemma find_distinct:
  "distinct (map f xs) \<Longrightarrow> p \<in> set xs \<Longrightarrow> find (\<lambda>x. f x = f p) xs = Some p"
  by (induction xs) (auto simp: image_iff)

lemma find_products:
  "p \<in> set products \<Longrightarrow> find (\<lambda>x. id' x = id' p) products = Some p"
  by (rule find_distinct) (simp_all add: products_ids)

lemma cart_addToCart:
  "find (\<lambda>x. id' x = i) products = Some p \<Longrightarrow>
   cart (addToCart i st) =
     (case get_property (cart st) (number_toString i) of
        None \<Rightarrow> set_property (number_toString i) (new_item p\<lparr>qty := 1\<rparr>) (cart st)
      | Some _ \<Rightarrow>
          update_property (number_toString i) (\<lambda>it. it\<lparr>qty := round_double (qty it + 1)\<rparr>)
            (cart st))"
  by (simp add: addToCart_def Let_def get_property_def update_set_property new_item_def
      round_double_exact split: option.splits)

lemma get_property_Nil: "get_property [] k = None"
  by (simp add: get_property_def)

lemma get_property_Cons:
  "get_property ((k, v) # ps) k' = (if k' = k then Some v else get_property ps k')"
  by (simp add: get_property_def)

lemma set_property_Nil: "set_property k v [] = [(k, v)]"
  by (simp add: set_property_def split: option.splits)

section \<open>Adding a product\<close>

lemma round_double_2_53: "round_double 9007199254740993 = 9007199254740992"
  by (simp add: round_double_def round_nat_def bit_length.simps Let_def)

text \<open>
  C5 as it is stated (adding a product of the catalogue raises its quantity
  by exactly one) fails on an entry whose quantity is \<open>2\<^sup>5\<^sup>3\<close>: the sum
  \<open>2\<^sup>5\<^sup>3 + 1\<close> is not a double, \<^verbatim>\<open>qty += 1\<close> stores the nearest
  double, and the quantity after the click is \<open>2\<^sup>5\<^sup>3\<close> as before.
\<close>

theorem addToCart_rounds_counterexample:
  "hd products \<in> set products \<and> id' (hd products) = 1 \<and>
   get_property
     (cart (addToCart 1
        \<lparr>cart = [(ascii ''1'', new_item (hd products)\<lparr>qty := 9007199254740992\<rparr>)],
           storage = None, cartCount = [], totalEl = [], effects = []\<rparr>))
     (ascii ''1'') =
     Some (new_item (hd products)\<lparr>qty := 9007199254740992\<rparr>)"
proof -
  have f: "find (\<lambda>x. id' x = 1) products = Some (hd products)"
    by (simp add: products_def)
  have k: "number_toString 1 = ascii ''1''"
    by (simp add: number_toString_def digits_of_nat.simps digit_char_def ascii_def)
  show ?thesis
    unfolding cart_addToCart [OF f] k
    by (simp add: get_property_def round_double_2_53) (simp add: products_def)
qed

text \<open>
  C5, for the quantities that are safe integers. For a product \<open>p\<close> of the
  catalogue, \<open>addToCart (id' p)\<close> does this to the entry stored under the
  id: where no entry exists, the new entry has the name, the price (and the
  id and the description) of the product and quantity 1; where an entry
  exists, it is the old entry with the double nearest to its quantity plus 1
  as the quantity, which is the quantity increased by exactly 1 when the
  quantity is a safe integer (at most \<open>2\<^sup>5\<^sup>3 - 1\<close> in absolute value).
  The entries under all other keys are unchanged. Adding the same product
  twice to the empty cart leaves one entry, with quantity 2.
\<close>

theorem addToCart_adds_one:
  "p \<in> set products \<Longrightarrow>
   (let k = number_toString (id' p); c = cart st; c' = cart (addToCart (id' p) st) in
     (case get_property c k of
        None \<Rightarrow>
          get_property c' k =
            Some \<lparr>id' = id' p, name = name p, price = price p, desc = desc p, qty = 1\<rparr>
      | Some old \<Rightarrow>
          get_property c' k = Some (old\<lparr>qty := round_double (qty old + 1)\<rparr>) \<and>
          (\<bar>qty old\<bar> \<le> MAX_SAFE_INTEGER \<longrightarrow>
             get_property c' k = Some (old\<lparr>qty := qty old + 1\<rparr>))) \<and>
     (\<forall>k'. k' \<noteq> k \<longrightarrow> get_property c' k' = get_property c k') \<and>
     (c = [] \<longrightarrow>
        cart (addToCart (id' p) (addToCart (id' p) st)) =
          [(k, \<lparr>id' = id' p, name = name p, price = price p, desc = desc p, qty = 2\<rparr>)]))"
proof -
  assume "p \<in> set products"
  then have f: "find (\<lambda>x. id' x = id' p) products = Some p"
    by (rule find_products)
  have two: "round_double 2 = 2"
    by (rule round_double_exact) simp
  show ?thesis
    unfolding Let_def cart_addToCart [OF f]
    by (auto simp: get_set_property get_update_property new_item_def set_property_Nil
        get_property_Nil get_property_Cons round_double_safe two split: option.splits)
qed

theorem addToCart_adds_one_witness:
  "hd products \<in> set products \<and>
   map (\<lambda>(k, it). (k, id' it, qty it))
     (cart (addToCart 1 (addToCart 1
        \<lparr>cart = [], storage = None, cartCount = [], totalEl = [], effects = []\<rparr>))) =
     [(ascii ''1'', 1, 2)]"
  using addToCart_adds_one [of "hd products"
      "\<lparr>cart = [], storage = None, cartCount = [], totalEl = [], effects = []\<rparr>"]
  by (simp add: Let_def get_property_def products_def number_toString_def digits_of_nat.simps
      digit_char_def ascii_def)

section \<open>Unknown ids\<close>










section \<open>Quantities\<close>








lemma checkout_keeps_state:
  "checkout e st = Inr st' \<Longrightarrow>
   cart st' = cart st \<and> storage st' = storage st \<and> cartCount st' = cartCount st \<and>
   totalEl st' = totalEl st"
  by (auto simp: checkout_def Let_def split: if_splits sum.splits)






section \<open>Totals\<close>

text \<open>
  As long as the absolute values of the terms add up to a safe integer, no
  product and no partial sum is rounded.
\<close>

lemma total_exact:
  "\<bar>a\<bar> + (\<Sum>it\<leftarrow>items. \<bar>qty it * price it\<bar>) \<le> MAX_SAFE_INTEGER \<Longrightarrow>
   foldl (\<lambda>t it. js_add t (js_mul (qty it) (price it))) (Finite a) items =
     Finite (a + (\<Sum>it\<leftarrow>items. qty it * price it))"
proof (induction items arbitrary: a)
  case Nil
  show ?case by simp
next
  case (Cons it items)
  have nn: "0 \<le> (\<Sum>it\<leftarrow>items. \<bar>qty it * price it\<bar>)"
    by (rule sum_list_nonneg) auto
  have t: "\<bar>qty it * price it\<bar> \<le> MAX_SAFE_INTEGER"
    using Cons.prems nn by simp
  have s: "\<bar>a + qty it * price it\<bar> \<le> MAX_SAFE_INTEGER"
    using Cons.prems nn by simp
  have step: "js_add (Finite a) (js_mul (qty it) (price it)) = Finite (a + qty it * price it)"
    by (simp add: js_add_def js_mul_def to_number_safe [OF t] to_number_safe [OF s])
  have "\<bar>a + qty it * price it\<bar> + (\<Sum>it\<leftarrow>items. \<bar>qty it * price it\<bar>) \<le> MAX_SAFE_INTEGER"
    using Cons.prems by simp
  from Cons.IH [OF this] show ?case
    by (simp add: step add.assoc)
qed

lemma orderTotal_sum:
  "(\<Sum>it\<leftarrow>entries c. \<bar>qty it * price it\<bar>) \<le> MAX_SAFE_INTEGER \<Longrightarrow>
   orderTotal c = Finite (\<Sum>it\<leftarrow>entries c. qty it * price it)"
  using total_exact [of 0 "entries c"] by (simp add: orderTotal_def)

lemma checkout_total_orderTotal: "checkout_total (entries c) = orderTotal c"
  by (simp add: checkout_total_def orderTotal_def)

lemma sum_nonneg:
  "\<forall>it \<in> set (entries c). 0 \<le> price it \<and> 1 \<le> qty it \<Longrightarrow>
   0 \<le> (\<Sum>it\<leftarrow>entries c. qty it * price it)"
  by (rule sum_list_nonneg) auto

lemma orderTotal_example:
  "qty a = 2 \<Longrightarrow> price a = 12000 \<Longrightarrow> qty b = 1 \<Longrightarrow> price b = 6000 \<Longrightarrow>
   orderTotal [(ka, a), (kb, b)] = Finite 30000"
  using orderTotal_sum [of "[(ka, a), (kb, b)]"]
  by (simp add: entries_def MAX_SAFE_INTEGER_def)

text \<open>
  C6 as it is stated (for every cart the total is the sum of quantity times
  price) fails where the product is not a double: for the cart of one entry
  of quantity \<open>2\<^sup>5\<^sup>3 - 1\<close> at price 3 the product is 27021597764222973
  and the total that is computed is the nearest double, 27021597764222972.
\<close>

theorem orderTotal_rounds_counterexample:
  "orderTotal
     [(ascii ''1'', \<lparr>id' = 1, name = [], price = 3, desc = [], qty = 9007199254740991\<rparr>)] =
     Finite 27021597764222972 \<and>
   orderTotal
     [(ascii ''1'', \<lparr>id' = 1, name = [], price = 3, desc = [], qty = 9007199254740991\<rparr>)] \<noteq>
     Finite (9007199254740991 * 3)"
  by (simp add: orderTotal_def entries_def js_add_def js_mul_def to_number_def round_double_def
      round_nat_def bit_length.simps Let_def)

text \<open>
  C6, for the carts whose total is a safe integer. When the absolute values
  of quantity times price add up to at most \<open>2\<^sup>5\<^sup>3 - 1\<close> over the
  entries of the cart, the total that \<open>renderCart\<close> shows (and the one the
  checkout computes) is the sum over the entries of quantity times price.
  That sum is not negative when no price is negative and every quantity is
  at least one. The total is 0 for the empty cart, and it is 30000 for a
  cart of one entry of quantity 2 at price 12000 and one entry of quantity 1
  at price 6000.
\<close>

theorem orderTotal_is_sum:
  "(\<Sum>it\<leftarrow>entries c. \<bar>qty it * price it\<bar>) \<le> MAX_SAFE_INTEGER \<Longrightarrow>
     orderTotal c = Finite (\<Sum>it\<leftarrow>entries c. qty it * price it) \<and>
     totalEl (renderCart st) = formatMoney (orderTotal (cart st)) \<and>
     checkout_total (entries c) = orderTotal c \<and>
     orderTotal [] = Finite 0 \<and>
     ((\<forall>it \<in> set (entries c). 0 \<le> price it \<and> 1 \<le> qty it) \<longrightarrow>
        0 \<le> (\<Sum>it\<leftarrow>entries c. qty it * price it)) \<and>
     (qty a = 2 \<and> price a = 12000 \<and> qty b = 1 \<and> price b = 6000 \<longrightarrow>
        orderTotal [(ka, a), (kb, b)] = Finite 30000)"
  using sum_nonneg [of c]
  by (simp add: orderTotal_sum checkout_total_orderTotal renderCart_def orderTotal_example)
     (simp add: orderTotal_def entries_def)

theorem orderTotal_is_sum_witness:
  "(\<Sum>it\<leftarrow>entries
       [(ascii ''1'', \<lparr>id' = 1, name = [], price = 12000, desc = [], qty = 2\<rparr>),
        (ascii ''3'', \<lparr>id' = 3, name = [], price = 6000, desc = [], qty = 1\<rparr>)].
      \<bar>qty it * price it\<bar>) \<le> MAX_SAFE_INTEGER \<and>
   list_all (\<lambda>it. 0 \<le> price it \<and> 1 \<le> qty it)
     (entries
       [(ascii ''1'', \<lparr>id' = 1, name = [], price = 12000, desc = [], qty = 2\<rparr>),
        (ascii ''3'', \<lparr>id' = 3, name = [], price = 6000, desc = [], qty = 1\<rparr>)]) \<and>
   orderTotal
     [(ascii ''1'', \<lparr>id' = 1, name = [], price = 12000, desc = [], qty = 2\<rparr>),
      (ascii ''3'', \<lparr>id' = 3, name = [], price = 6000, desc = [], qty = 1\<rparr>)] =
     Finite 30000"
proof -
  let ?c = "[(ascii ''1'', \<lparr>id' = 1, name = [], price = 12000, desc = [], qty = 2\<rparr>),
      (ascii ''3'', \<lparr>id' = 3, name = [], price = 6000, desc = [], qty = 1\<rparr>)]"
  have h: "(\<Sum>it\<leftarrow>entries ?c. \<bar>qty it * price it\<bar>) \<le> MAX_SAFE_INTEGER"
    by (simp add: entries_def MAX_SAFE_INTEGER_def)
  have "orderTotal ?c = Finite (\<Sum>it\<leftarrow>entries ?c. qty it * price it)"
    using orderTotal_is_sum [of ?c, OF h] by (rule conjunct1)
  with h show ?thesis
    by (simp add: entries_def)
qed

section \<open>Checkout\<close>

lemma checkout_empty:
  "entries (cart st) = [] \<Longrightarrow>
   checkout e st = Inr (st\<lparr>effects := effects st @ [Alert empty_cart_text]\<rparr>)"
  by (simp add: checkout_def)

lemma step_checkout_keeps:
  "cart (step e st CheckoutClick) = cart st \<and> storage (step e st CheckoutClick) = storage st"
proof (cases "checkout e st")
  case (Inl err)
  then show ?thesis by (simp add: step_def)
next
  case (Inr st')
  with checkout_keeps_state [OF Inr] show ?thesis by (simp add: step_def)
qed

text \<open>
  C8. On an empty cart the checkout handler shows the alert and does nothing
  else: no window is opened, no document is written, no link is built. On
  any cart, a checkout that returns leaves the cart, the stored text and the
  rendered count and total as they were, and so does one that throws.
\<close>

theorem checkout_refuses_empty_cart:
  "(entries (cart st) = [] \<longrightarrow>
      checkout e st = Inr (st\<lparr>effects := effects st @ [Alert empty_cart_text]\<rparr>)) \<and>
   (\<forall>st'. checkout e st = Inr st' \<longrightarrow>
      cart st' = cart st \<and> storage st' = storage st \<and> cartCount st' = cartCount st \<and>
      totalEl st' = totalEl st) \<and>
   cart (step e st CheckoutClick) = cart st \<and>
   storage (step e st CheckoutClick) = storage st"
proof (intro conjI allI impI)
  show "checkout e st = Inr (st\<lparr>effects := effects st @ [Alert empty_cart_text]\<rparr>)"
    if "entries (cart st) = []"
    using that by (rule checkout_empty)
  show "cart st' = cart st" "storage st' = storage st" "cartCount st' = cartCount st"
    "totalEl st' = totalEl st" if "checkout e st = Inr st'" for st'
    using checkout_keeps_state [OF that] by simp_all
  show "cart (step e st CheckoutClick) = cart st" "storage (step e st CheckoutClick) = storage st"
    using step_checkout_keeps [of e st] by simp_all
qed

theorem checkout_refuses_empty_cart_witness:
  "entries (cart \<lparr>cart = [], storage = None, cartCount = [], totalEl = [], effects = []\<rparr>) = [] \<and>
   checkout \<lparr>now = [], encodeURIComponent = Inr, popup_allowed = True\<rparr>
     \<lparr>cart = [], storage = None, cartCount = [], totalEl = [], effects = []\<rparr> =
     Inr \<lparr>cart = [], storage = None, cartCount = [], totalEl = [],
          effects = [Alert empty_cart_text]\<rparr>"
proof -
  have h: "entries (cart \<lparr>cart = [], storage = None, cartCount = [], totalEl = [],
      effects = []\<rparr>) = []"
    by (simp add: entries_def)
  from checkout_refuses_empty_cart [THEN conjunct1, rule_format, OF h] h show ?thesis
    by simp
qed

section \<open>The parser\<close>

text \<open>Every successful step of the parser consumes text.\<close>

lemma length_skip_ws: "length (skip_ws s) \<le> length s"
  by (simp add: skip_ws_def length_dropWhile_le)

lemma skip_ws_Cons_length: "skip_ws s = d # r \<Longrightarrow> length r < length s"
  using length_skip_ws [of s] by simp

lemma cons_fst_Some: "cons_fst c x = Some (str, r) \<longleftrightarrow> (\<exists>t. x = Some (t, r) \<and> str = c # t)"
  by (cases x) (auto simp: cons_fst_def)

lemma parse_string_chars_length:
  "parse_string_chars s = Some (str, r) \<Longrightarrow> length r < length s"
proof (induction s arbitrary: str rule: parse_string_chars.induct)
  case 1
  then show ?case by simp
next
  case (2 c cs)
  consider (quote) "c = 0x22" | (escape) "c \<noteq> 0x22" "c = 0x5C"
    | (control) "c \<noteq> 0x22" "c \<noteq> 0x5C" "c < 0x20"
    | (plain) "c \<noteq> 0x22" "c \<noteq> 0x5C" "\<not> c < 0x20"
    by blast
  then show ?case
  proof cases
    case quote
    with "2.prems" show ?thesis by simp
  next
    case control
    with "2.prems" show ?thesis by simp
  next
    case plain
    with "2.prems" obtain t where "parse_string_chars cs = Some (t, r)"
      by (auto simp: cons_fst_Some)
    with plain have "length r < length cs"
      by (intro "2.IH"(3)) simp_all
    then show ?thesis by simp
  next
    case escape
    with "2.prems" obtain e r0 where cs: "cs = e # r0"
      by (cases cs) auto
    show ?thesis
    proof (cases "e = 0x75")
      case False
      with escape cs "2.prems" obtain u t where
        u: "unescape e = Some u" and t: "parse_string_chars r0 = Some (t, r)"
        by (auto simp: cons_fst_Some split: option.splits)
      from escape cs False u t have "length r < length r0"
        by (intro "2.IH"(2)) simp_all
      with cs show ?thesis by simp
    next
      case True
      with escape cs "2.prems" obtain h1 h2 h3 h4 r' where r0: "r0 = h1 # h2 # h3 # h4 # r'"
        by (auto split: list.splits)
      with True escape cs "2.prems" obtain u t where
        u: "hex4 h1 h2 h3 h4 = Some u" and t: "parse_string_chars r' = Some (t, r)"
        by (auto simp: cons_fst_Some split: option.splits)
      from escape cs True r0 u t have "length r < length r'"
        by (intro "2.IH"(1)) simp_all
      with cs r0 show ?thesis by simp
    qed
  qed
qed

lemma parse_fraction_length: "parse_fraction s = Some (fd, r) \<Longrightarrow> length r \<le> length s"
  using length_dropWhile_le [of is_digit "tl s"]
  by (auto simp: parse_fraction_def split: list.splits if_splits)

lemma parse_exponent_length: "parse_exponent s = Some (ex, r) \<Longrightarrow> length r \<le> length s"
proof (cases s)
  case Nil
  then show "parse_exponent s = Some (ex, r) \<Longrightarrow> ?thesis"
    by (simp add: parse_exponent_def)
next
  case (Cons c t)
  assume p: "parse_exponent s = Some (ex, r)"
  show ?thesis
  proof (cases "c = 0x65 \<or> c = 0x45")
    case False
    with p Cons show ?thesis by (auto simp: parse_exponent_def)
  next
    case True
    define r1 where "r1 = (case t of [] \<Rightarrow> t | d # r' \<Rightarrow> if d = 0x2D \<or> d = 0x2B then r' else t)"
    have "length r1 \<le> length t"
      by (simp add: r1_def split: list.splits)
    moreover have "r = dropWhile is_digit r1"
      using p Cons True by (auto simp: parse_exponent_def Let_def r1_def split: if_splits)
    ultimately show ?thesis
      using length_dropWhile_le [of is_digit r1] Cons by simp
  qed
qed

lemma number_sign_length: "number_sign s = (neg, s1) \<Longrightarrow> length s1 \<le> length s"
  by (auto simp: number_sign_def split: list.splits if_splits)

lemma integer_digits_length: "length (integer_digits s) \<le> length s"
  using length_takeWhile_le [of is_digit s]
  by (auto simp: integer_digits_def split: list.splits)

lemma parse_number_length:
  assumes "parse_number s = Some (x, r)"
  shows "length r < length s"
proof -
  obtain neg s1 where sg: "number_sign s = (neg, s1)"
    by (cases "number_sign s")
  from assms sg have ne: "integer_digits s1 \<noteq> []"
    by (auto simp: parse_number_def split: if_splits)
  from assms sg ne obtain fd s3 ex where
    f: "parse_fraction (drop (length (integer_digits s1)) s1) = Some (fd, s3)" and
    e: "parse_exponent s3 = Some (ex, r)"
    by (auto simp: parse_number_def split: option.splits)
  from ne integer_digits_length [of s1]
  have "length (drop (length (integer_digits s1)) s1) < length s1"
    by (cases "integer_digits s1") auto
  then show ?thesis
    using parse_fraction_length [OF f] parse_exponent_length [OF e] number_sign_length [OF sg]
    by simp
qed

lemma literal_length:
  "take k s = t \<Longrightarrow> length t = k \<Longrightarrow> 0 < k \<Longrightarrow> length (drop k s) < length s"
  by (cases "k \<le> length s") auto

lemma length_ascii: "length (ascii t) = length t"
  by (simp add: ascii_def)

lemma skip_ws_length_less: "skip_ws s = t \<Longrightarrow> length u < length t \<Longrightarrow> length u < length s"
  using length_skip_ws [of s] by simp

lemma parse_value_Suc_length:
  assumes m: "\<And>acc s v r. parse_members n acc s = Parsed v r \<Longrightarrow> length r < length s"
    and e: "\<And>acc s v r. parse_elements n acc s = Parsed v r \<Longrightarrow> length r < length s"
    and p: "parse_value (Suc n) s = Parsed v r"
  shows "length r < length s"
proof (cases s)
  case Nil
  with p show ?thesis by simp
next
  case (Cons c cs)
  consider (obj) "c = 0x7B" | (arr) "c \<noteq> 0x7B" "c = 0x5B" | (str) "c \<noteq> 0x7B" "c \<noteq> 0x5B" "c = 0x22"
    | (num) "c \<noteq> 0x7B" "c \<noteq> 0x5B" "c \<noteq> 0x22" "c = 0x2D \<or> is_digit c"
    | (lit) "c \<noteq> 0x7B" "c \<noteq> 0x5B" "c \<noteq> 0x22" "\<not> (c = 0x2D \<or> is_digit c)"
    by blast
  then show ?thesis
  proof cases
    case obj
    with p Cons obtain d r0 where sk: "skip_ws cs = d # r0"
      by (cases "skip_ws cs") auto
    show ?thesis
    proof (cases "d = 0x7D")
      case True
      with p Cons obj sk have "r = r0" by simp
      with skip_ws_Cons_length [OF sk] Cons show ?thesis by simp
    next
      case False
      with p Cons obj sk have "parse_members n [] (d # r0) = Parsed v r" by simp
      from m [OF this] length_skip_ws [of cs] sk Cons show ?thesis by simp
    qed
  next
    case arr
    with p Cons obtain d r0 where sk: "skip_ws cs = d # r0"
      by (cases "skip_ws cs") auto
    show ?thesis
    proof (cases "d = 0x5D")
      case True
      with p Cons arr sk have "r = r0" by simp
      with skip_ws_Cons_length [OF sk] Cons show ?thesis by simp
    next
      case False
      with p Cons arr sk have "parse_elements n [] (d # r0) = Parsed v r" by simp
      from e [OF this] length_skip_ws [of cs] sk Cons show ?thesis by simp
    qed
  next
    case str
    with p Cons obtain t where "parse_string_chars cs = Some (t, r)"
      by (auto split: option.splits)
    from parse_string_chars_length [OF this] Cons show ?thesis by simp
  next
    case num
    with p Cons obtain x where "parse_number s = Some (x, r)"
      by (auto split: option.splits)
    then show ?thesis by (rule parse_number_length)
  next
    case lit
    with p Cons have
      "(take 4 s = ascii ''true'' \<and> r = drop 4 s) \<or> (take 5 s = ascii ''false'' \<and> r = drop 5 s) \<or>
       (take 4 s = ascii ''null'' \<and> r = drop 4 s)"
      by (simp split: if_splits)
    then show ?thesis
      by (auto intro!: literal_length simp: length_ascii)
  qed
qed

lemma parse_members_Suc_length:
  assumes v: "\<And>s v r. parse_value n s = Parsed v r \<Longrightarrow> length r < length s"
    and m: "\<And>acc s v r. parse_members n acc s = Parsed v r \<Longrightarrow> length r < length s"
    and p: "parse_members (Suc n) acc s = Parsed v r"
  shows "length r < length s"
proof -
  from p obtain cs where s: "s = 0x22 # cs"
    by (cases s) (auto split: if_splits)
  with p obtain k r0 where k: "parse_string_chars cs = Some (k, r0)"
    by (cases "parse_string_chars cs") auto
  with p s obtain r1 where r1: "skip_ws r0 = 0x3A # r1"
    by (cases "skip_ws r0") (auto split: if_splits)
  with p s k obtain x r2 where x: "parse_value n (skip_ws r1) = Parsed x r2"
    by (cases "parse_value n (skip_ws r1)") auto
  with p s k r1 obtain e r3 where r3: "skip_ws r2 = e # r3"
    by (cases "skip_ws r2") auto
  have l0: "length r0 < length cs"
    using k by (rule parse_string_chars_length)
  have l1: "length r1 < length r0"
    using r1 by (rule skip_ws_Cons_length)
  have l2: "length r2 < length r1"
    using v [OF x] length_skip_ws [of r1] by simp
  have l3: "length r3 < length r2"
    using r3 by (rule skip_ws_Cons_length)
  show ?thesis
  proof (cases "e = 0x2C")
    case True
    with p s k r1 x r3 have "parse_members n (set_property k x acc) (skip_ws r3) = Parsed v r"
      by simp
    from m [OF this] length_skip_ws [of r3] l0 l1 l2 l3 s show ?thesis by simp
  next
    case False
    with p s k r1 x r3 have "r = r3"
      by (simp split: if_splits)
    with l0 l1 l2 l3 s show ?thesis by simp
  qed
qed

lemma parse_elements_Suc_length:
  assumes v: "\<And>s v r. parse_value n s = Parsed v r \<Longrightarrow> length r < length s"
    and e: "\<And>acc s v r. parse_elements n acc s = Parsed v r \<Longrightarrow> length r < length s"
    and p: "parse_elements (Suc n) acc s = Parsed v r"
  shows "length r < length s"
proof -
  from p obtain x r0 where x: "parse_value n s = Parsed x r0"
    by (cases "parse_value n s") auto
  with p obtain d r1 where r1: "skip_ws r0 = d # r1"
    by (cases "skip_ws r0") auto
  have l0: "length r0 < length s"
    using x by (rule v)
  have l1: "length r1 < length r0"
    using r1 by (rule skip_ws_Cons_length)
  show ?thesis
  proof (cases "d = 0x2C")
    case True
    with p x r1 have "parse_elements n (acc @ [x]) (skip_ws r1) = Parsed v r"
      by simp
    from e [OF this] length_skip_ws [of r1] l0 l1 show ?thesis by simp
  next
    case False
    with p x r1 have "r = r1"
      by (simp split: if_splits)
    with l0 l1 show ?thesis by simp
  qed
qed

lemma parse_length:
  "(\<forall>s v r. parse_value n s = Parsed v r \<longrightarrow> length r < length s) \<and>
   (\<forall>acc s v r. parse_members n acc s = Parsed v r \<longrightarrow> length r < length s) \<and>
   (\<forall>acc s v r. parse_elements n acc s = Parsed v r \<longrightarrow> length r < length s)"
proof (induction n)
  case 0
  show ?case by simp
next
  case (Suc n)
  then have v: "\<And>s v r. parse_value n s = Parsed v r \<Longrightarrow> length r < length s"
    and m: "\<And>acc s v r. parse_members n acc s = Parsed v r \<Longrightarrow> length r < length s"
    and e: "\<And>acc s v r. parse_elements n acc s = Parsed v r \<Longrightarrow> length r < length s"
    by blast+
  show ?case
  proof (intro conjI allI impI)
    show "length r < length s" if p: "parse_value (Suc n) s = Parsed x r" for s x r
      by (rule parse_value_Suc_length [OF _ _ p]) (blast intro: m e)+
    show "length r < length s" if p: "parse_members (Suc n) acc s = Parsed x r" for acc s x r
      by (rule parse_members_Suc_length [OF _ _ p]) (blast intro: v m)+
    show "length r < length s" if p: "parse_elements (Suc n) acc s = Parsed x r" for acc s x r
      by (rule parse_elements_Suc_length [OF _ _ p]) (blast intro: v e)+
  qed
qed

lemma parse_value_length: "parse_value n s = Parsed v r \<Longrightarrow> length r < length s"
  using parse_length [of n] by blast

text \<open>A bound above twice the length of the text is never used up.\<close>

lemma parse_value_Suc_fuel:
  assumes m: "\<And>acc s. 2 * length s < n \<Longrightarrow> parse_members n acc s \<noteq> OutOfFuel"
    and e: "\<And>acc s. 2 * length s + 1 < n \<Longrightarrow> parse_elements n acc s \<noteq> OutOfFuel"
    and l: "2 * length s < Suc n"
  shows "parse_value (Suc n) s \<noteq> OutOfFuel"
proof (cases s)
  case Nil
  then show ?thesis by simp
next
  case (Cons c cs)
  have "2 * length (skip_ws cs) + 1 < n"
    using length_skip_ws [of cs] l Cons by simp
  then have "parse_members n [] (skip_ws cs) \<noteq> OutOfFuel"
    "parse_elements n [] (skip_ws cs) \<noteq> OutOfFuel"
    by (simp_all add: m e)
  with Cons show ?thesis
    by (auto split: list.splits option.splits)
qed

lemma parse_members_Suc_fuel:
  assumes v: "\<And>s. 2 * length s < n \<Longrightarrow> parse_value n s \<noteq> OutOfFuel"
    and m: "\<And>acc s. 2 * length s < n \<Longrightarrow> parse_members n acc s \<noteq> OutOfFuel"
    and l: "2 * length s < Suc n"
  shows "parse_members (Suc n) acc s \<noteq> OutOfFuel"
proof
  assume p: "parse_members (Suc n) acc s = OutOfFuel"
  from p obtain cs where s: "s = 0x22 # cs"
    by (cases s) (auto split: if_splits)
  with p obtain k r0 where k: "parse_string_chars cs = Some (k, r0)"
    by (cases "parse_string_chars cs") auto
  with p s obtain r1 where r1: "skip_ws r0 = 0x3A # r1"
    by (cases "skip_ws r0") (auto split: if_splits)
  have l0: "length r0 < length cs"
    using k by (rule parse_string_chars_length)
  have l1: "length r1 < length r0"
    using r1 by (rule skip_ws_Cons_length)
  have "2 * length (skip_ws r1) < n"
    using length_skip_ws [of r1] l0 l1 l s by simp
  then have "parse_value n (skip_ws r1) \<noteq> OutOfFuel"
    by (rule v)
  with p s k r1 obtain x r2 where x: "parse_value n (skip_ws r1) = Parsed x r2"
    by (cases "parse_value n (skip_ws r1)") auto
  with p s k r1 obtain d r3 where r3: "skip_ws r2 = d # r3"
    by (cases "skip_ws r2") auto
  have l2: "length r2 < length r1"
    using parse_value_length [OF x] length_skip_ws [of r1] by simp
  have l3: "length r3 < length r2"
    using r3 by (rule skip_ws_Cons_length)
  have "2 * length (skip_ws r3) < n"
    using length_skip_ws [of r3] l0 l1 l2 l3 l s by simp
  then have "parse_members n (set_property k x acc) (skip_ws r3) \<noteq> OutOfFuel"
    by (rule m)
  with p s k r1 x r3 show False
    by (simp split: if_splits)
qed

lemma parse_elements_Suc_fuel:
  assumes v: "\<And>s. 2 * length s < n \<Longrightarrow> parse_value n s \<noteq> OutOfFuel"
    and e: "\<And>acc s. 2 * length s + 1 < n \<Longrightarrow> parse_elements n acc s \<noteq> OutOfFuel"
    and l: "2 * length s + 1 < Suc n"
  shows "parse_elements (Suc n) acc s \<noteq> OutOfFuel"
proof
  assume p: "parse_elements (Suc n) acc s = OutOfFuel"
  have "parse_value n s \<noteq> OutOfFuel"
    using l by (intro v) simp
  with p obtain x r0 where x: "parse_value n s = Parsed x r0"
    by (cases "parse_value n s") auto
  with p obtain d r1 where r1: "skip_ws r0 = d # r1"
    by (cases "skip_ws r0") auto
  have l0: "length r0 < length s"
    using x by (rule parse_value_length)
  have l1: "length r1 < length r0"
    using r1 by (rule skip_ws_Cons_length)
  have "2 * length (skip_ws r1) + 1 < n"
    using length_skip_ws [of r1] l0 l1 l by simp
  then have "parse_elements n (acc @ [x]) (skip_ws r1) \<noteq> OutOfFuel"
    by (rule e)
  with p x r1 show False
    by (simp split: if_splits)
qed

lemma parse_fuel:
  "(\<forall>s. 2 * length s < n \<longrightarrow> parse_value n s \<noteq> OutOfFuel) \<and>
   (\<forall>acc s. 2 * length s < n \<longrightarrow> parse_members n acc s \<noteq> OutOfFuel) \<and>
   (\<forall>acc s. 2 * length s + 1 < n \<longrightarrow> parse_elements n acc s \<noteq> OutOfFuel)"
proof (induction n)
  case 0
  show ?case by simp
next
  case (Suc n)
  then have v: "\<And>s. 2 * length s < n \<Longrightarrow> parse_value n s \<noteq> OutOfFuel"
    and m: "\<And>acc s. 2 * length s < n \<Longrightarrow> parse_members n acc s \<noteq> OutOfFuel"
    and e: "\<And>acc s. 2 * length s + 1 < n \<Longrightarrow> parse_elements n acc s \<noteq> OutOfFuel"
    by blast+
  show ?case
  proof (intro conjI allI impI)
    show "parse_value (Suc n) s \<noteq> OutOfFuel" if l: "2 * length s < Suc n" for s
      by (rule parse_value_Suc_fuel [OF _ _ l]) (simp_all add: m e)
    show "parse_members (Suc n) acc s \<noteq> OutOfFuel" if l: "2 * length s < Suc n" for acc s
      by (rule parse_members_Suc_fuel [OF _ _ l]) (simp_all add: v m)
    show "parse_elements (Suc n) acc s \<noteq> OutOfFuel" if l: "2 * length s + 1 < Suc n"
      for acc s
      by (rule parse_elements_Suc_fuel [OF _ _ l]) (simp_all add: v e)
  qed
qed

lemma JSON_parse_returns: "\<exists>r. JSON_parse s = Some r"
proof -
  have "2 * length (skip_ws s) < Suc (2 * length s)"
    using length_skip_ws [of s] by simp
  with parse_fuel [of "Suc (2 * length s)"]
  have "parse_value (Suc (2 * length s)) (skip_ws s) \<noteq> OutOfFuel"
    by blast
  then show ?thesis
    by (cases "parse_value (Suc (2 * length s)) (skip_ws s)") (simp_all add: JSON_parse_def)
qed

section \<open>Start-up\<close>

lemma parse_numeral:
  "parse_value (numeral k) s = parse_value (Suc (pred_numeral k)) s"
  "parse_members (numeral k) acc s = parse_members (Suc (pred_numeral k)) acc s"
  "parse_elements (numeral k) els s = parse_elements (Suc (pred_numeral k)) els s"
  by (simp_all add: numeral_eq_Suc)

lemmas parser_defs = parse_numeral ascii_def is_digit_def is_ws_def skip_ws_def array_index_def decimal_value_def
  set_property_def hex_value_def hex4_def unescape_def cons_fst_def parse_fraction_def
  parse_exponent_def number_value_def number_sign_def integer_digits_def parse_number_def
  JSON_parse_def decode_def

lemma decode_absent: "decode None = Some (Inr (JObject []))"
  by (simp add: parser_defs del: Suc_numeral)

lemma decode_empty_string: "decode (Some []) = Some (Inr (JObject []))"
  by (simp add: parser_defs del: Suc_numeral)

lemma decode_text: "s \<noteq> [] \<Longrightarrow> decode (Some s) = JSON_parse s"
  by (simp add: decode_def)

lemma decode_returns: "\<exists>r. decode stored = Some r"
  unfolding decode_def by (rule JSON_parse_returns)

lemma parse_value_bad_start:
  "skip_ws s = [] \<or> \<not> value_start (hd (skip_ws s)) \<Longrightarrow> JSON_parse s = Some (Inl SyntaxError)"
  by (cases "skip_ws s") (auto simp: JSON_parse_def value_start_def ascii_def)

text \<open>
  C2 as stated fails: on the stored text \<^verbatim>\<open>garbage\<close> the start-up ends
  with the \<^verbatim>\<open>SyntaxError\<close> of \<^verbatim>\<open>JSON.parse\<close>.
\<close>

theorem decode_garbage_counterexample:
  "decode (Some (ascii ''garbage'')) = Some (Inl SyntaxError)"
  by (simp add: parser_defs del: Suc_numeral)

text \<open>
  C2, amended. \<open>decode\<close> yields the empty cart where nothing (or the
  empty string) is stored. On every other stored text it yields what
  \<^verbatim>\<open>JSON.parse\<close> yields, and that is always a result: a value or a
  \<^verbatim>\<open>SyntaxError\<close>, which nothing catches. In particular a text that is blank
  or does not begin like a value gives the \<^verbatim>\<open>SyntaxError\<close>.
\<close>

theorem decode_fail_soft_only_when_absent:
  "decode None = Some (Inr (JObject [])) \<and>
   decode (Some []) = Some (Inr (JObject [])) \<and>
   (\<exists>r. decode stored = Some r) \<and>
   (s \<noteq> [] \<longrightarrow> decode (Some s) = JSON_parse s) \<and>
   (s \<noteq> [] \<and> (skip_ws s = [] \<or> \<not> value_start (hd (skip_ws s))) \<longrightarrow>
      decode (Some s) = Some (Inl SyntaxError))"
  using decode_returns [of stored]
  by (simp add: decode_absent decode_empty_string decode_text parse_value_bad_start)

theorem decode_fail_soft_only_when_absent_witness:
  "ascii ''oops'' \<noteq> [] \<and> \<not> value_start (hd (skip_ws (ascii ''oops''))) \<and>
   decode (Some (ascii ''oops'')) = Some (Inl SyntaxError)"
proof -
  have h: "ascii ''oops'' \<noteq> [] \<and>
      (skip_ws (ascii ''oops'') = [] \<or> \<not> value_start (hd (skip_ws (ascii ''oops''))))"
    by (simp add: ascii_def skip_ws_def is_ws_def value_start_def is_digit_def)
  have "decode (Some (ascii ''oops'')) = Some (Inl SyntaxError)"
    using decode_fail_soft_only_when_absent [of None "ascii ''oops''"] h by blast
  with h show ?thesis
    by (simp add: ascii_def skip_ws_def is_ws_def)
qed

section \<open>The stored text is read back\<close>

lemma unat_hex_digit_char:
  "d < 16 \<Longrightarrow> unat (hex_digit_char d) = (if d < 10 then 48 + d else 87 + d)"
  by (simp add: hex_digit_char_def unat_word_ariths unat_of_nat)

lemma hex_value_hex_digit_char: "d < 16 \<Longrightarrow> hex_value (hex_digit_char d) = Some d"
  by (simp add: hex_value_def word_le_nat_alt unat_hex_digit_char)

lemma hex_digits_value:
  "4096 * (n div 4096) + 256 * (n div 256 mod 16) + 16 * (n div 16 mod 16) + n mod 16 = n"
  for n :: nat
proof -
  have a: "n mod (16 * 16) = 16 * (n div 16 mod 16) + n mod 16"
    by (rule mod_mult2_eq)
  have b: "n mod (256 * 16) = 256 * (n div 256 mod 16) + n mod 256"
    by (rule mod_mult2_eq)
  have "n = 4096 * (n div 4096) + n mod 4096"
    by simp
  with a b show ?thesis
    by simp
qed

lemma hex4_unicode_escape:
  "hex4 (hex_digit_char (unat c div 4096)) (hex_digit_char (unat c div 256 mod 16))
     (hex_digit_char (unat c div 16 mod 16)) (hex_digit_char (unat c mod 16)) = Some c"
proof -
  have "unat c < 2 ^ LENGTH(16)"
    by (rule unsigned_less)
  then have "unat c div 4096 < 16"
    by simp
  then show ?thesis
    by (simp add: hex4_def hex_value_hex_digit_char hex_digits_value)
qed

lemma parse_unicode_escape:
  "parse_string_chars (unicode_escape c @ t) = cons_fst c (parse_string_chars t)"
  by (simp add: unicode_escape_def hex4_unicode_escape)

lemma parse_quote_unit:
  "parse_string_chars (quote_unit c @ t) = cons_fst c (parse_string_chars t)"
proof (cases "c \<in> {0x08, 0x09, 0x0A, 0x0C, 0x0D, 0x22, 0x5C}")
  case True
  then show ?thesis
    by (auto simp: quote_unit_def unescape_def)
next
  case False
  then show ?thesis
    by (simp add: quote_unit_def parse_unicode_escape)
qed

lemma surrogate_plain:
  "is_lead c \<or> is_trail c \<Longrightarrow> c \<noteq> 0x22 \<and> c \<noteq> 0x5C \<and> \<not> c < 0x20"
  by (auto simp: is_lead_def is_trail_def word_le_nat_alt word_less_nat_alt)

lemma parse_quote_units:
  "parse_string_chars (quote_units s @ 0x22 # r) = Some (s, r)"
proof (induction s rule: quote_units.induct)
  case 1
  show ?case by simp
next
  case (2 c)
  show ?case
    by (simp add: parse_unicode_escape parse_quote_unit cons_fst_def)
next
  case (3 c d r')
  show ?case
  proof (cases "is_lead c \<and> is_trail d")
    case True
    with surrogate_plain [of c] surrogate_plain [of d] "3.IH"(1) show ?thesis
      by (simp add: cons_fst_def)
  next
    case False
    with "3.IH"(2,3) show ?thesis
      by (auto simp: parse_unicode_escape parse_quote_unit cons_fst_def)
  qed
qed

lemma is_ws_simps: "\<not> is_ws 0x22" "\<not> is_ws 0x3A" "\<not> is_ws 0x2C" "\<not> is_ws 0x7D" "\<not> is_ws 0x7B"
  by (simp_all add: is_ws_def)

lemma skip_ws_not_ws: "\<not> is_ws c \<Longrightarrow> skip_ws (c # s) = c # s"
  by (simp add: skip_ws_def)

lemma parse_value_string:
  "parse_value (Suc n) (skip_ws (QuoteJSONString s @ t)) = Parsed (JString s) t"
  by (simp add: QuoteJSONString_def skip_ws_not_ws is_ws_simps parse_quote_units)

text \<open>Numbers: the digits of an integer are read back as that integer.\<close>

lemma digit_char_zero: "d < 10 \<Longrightarrow> digit_char d = 0x30 \<longleftrightarrow> d = 0"
  using unat_digit_char [of d] by (auto simp: digit_char_def)

lemma hd_digits_of_nat: "hd (digits_of_nat m) = 0x30 \<longleftrightarrow> m = 0"
proof (induction m rule: digits_of_nat.induct)
  case (1 n)
  show ?case
  proof (cases "n < 10")
    case True
    then show ?thesis
      by (subst digits_of_nat.simps) (simp add: digit_char_zero)
  next
    case False
    then have "hd (digits_of_nat n) = hd (digits_of_nat (n div 10))"
      by (subst digits_of_nat.simps) (simp add: digits_of_nat_nonempty)
    with False 1 show ?thesis
      by simp
  qed
qed

lemma digits_of_nat_zero: "digits_of_nat 0 = [0x30]"
  by (subst digits_of_nat.simps) (simp add: digit_char_def)

lemma takeWhile_digits:
  "list_all is_digit ds \<Longrightarrow> number_end t \<Longrightarrow> takeWhile is_digit (ds @ t) = ds"
  by (cases t) (auto simp: number_end_def is_digit_def list_all_iff takeWhile_append2)

lemma integer_digits_digits_of_nat:
  "number_end t \<Longrightarrow> integer_digits (digits_of_nat m @ t) = digits_of_nat m"
proof (cases "m = 0")
  case True
  then show ?thesis
    by (simp add: digits_of_nat_zero integer_digits_def)
next
  case False
  assume t: "number_end t"
  obtain c cs where ds: "digits_of_nat m = c # cs"
    using digits_of_nat_nonempty [of m] by (cases "digits_of_nat m") auto
  with False hd_digits_of_nat [of m] have "c \<noteq> 0x30"
    by simp
  moreover have "takeWhile is_digit (digits_of_nat m @ t) = digits_of_nat m"
    using digits_of_nat_digits t by (rule takeWhile_digits)
  ultimately show ?thesis
    using ds by (simp add: integer_digits_def)
qed

lemma number_end_fraction: "number_end t \<Longrightarrow> parse_fraction t = Some ([], t)"
  by (cases t) (auto simp: number_end_def parse_fraction_def)

lemma number_end_exponent: "number_end t \<Longrightarrow> parse_exponent t = Some (0, t)"
  by (cases t) (auto simp: number_end_def parse_exponent_def)

lemma digits_not_minus: "hd (digits_of_nat m) \<noteq> 0x2D"
proof -
  obtain c cs where ds: "digits_of_nat m = c # cs"
    using digits_of_nat_nonempty [of m] by (cases "digits_of_nat m") auto
  with digits_of_nat_digits [of m] have "is_digit c"
    by simp
  with ds show ?thesis
    by (auto simp: is_digit_def)
qed

lemma number_sign_digits: "number_sign (digits_of_nat m @ t) = (False, digits_of_nat m @ t)"
  using digits_not_minus [of m] digits_of_nat_nonempty [of m]
  by (cases "digits_of_nat m") (auto simp: number_sign_def)

lemma parse_number_digits:
  assumes "number_end t"
  shows "parse_number (digits_of_nat m @ t) = Some (of_nat m, t)"
    and "parse_number (0x2D # digits_of_nat m @ t) = Some (- of_nat m, t)"
proof -
  have s: "number_sign (0x2D # digits_of_nat m @ t) = (True, digits_of_nat m @ t)"
    by (simp add: number_sign_def)
  have z: "decimal_value [] = 0"
    by (simp add: decimal_value_def)
  have v: "number_value neg (digits_of_nat m) [] 0 = (if neg then - of_nat m else of_nat m)" for neg
    by (simp add: number_value_def decimal_value_digits_of_nat z)
  show "parse_number (digits_of_nat m @ t) = Some (of_nat m, t)"
    using assms
    by (simp add: parse_number_def number_sign_digits integer_digits_digits_of_nat
        digits_of_nat_nonempty number_end_fraction number_end_exponent v)
  show "parse_number (0x2D # digits_of_nat m @ t) = Some (- of_nat m, t)"
    using assms
    by (simp add: parse_number_def s integer_digits_digits_of_nat
        digits_of_nat_nonempty number_end_fraction number_end_exponent v)
qed

lemma parse_number_toString:
  "number_end t \<Longrightarrow> parse_number (number_toString x @ t) = Some (of_int x, t)"
  by (simp add: number_toString_def parse_number_digits)

lemma number_toString_start:
  "\<exists>c cs. number_toString x = c # cs \<and> (c = 0x2D \<or> is_digit c)"
proof (cases "x < 0")
  case True
  then show ?thesis
    by (simp add: number_toString_def)
next
  case False
  obtain c cs where ds: "digits_of_nat (nat x) = c # cs"
    using digits_of_nat_nonempty [of "nat x"] by (cases "digits_of_nat (nat x)") auto
  with digits_of_nat_digits [of "nat x"] have "is_digit c"
    by simp
  with ds False show ?thesis
    by (simp add: number_toString_def)
qed

lemma parse_value_number:
  assumes "number_end t"
  shows "parse_value (Suc n) (skip_ws (number_toString x @ t)) = Parsed (JNumber (of_int x)) t"
proof -
  obtain c cs where s: "number_toString x = c # cs" and c: "c = 0x2D \<or> is_digit c"
    using number_toString_start [of x] by blast
  from c have nw: "\<not> is_ws c" and ns: "c \<noteq> 0x7B" "c \<noteq> 0x5B" "c \<noteq> 0x22"
    by (auto simp: is_ws_def is_digit_def)
  have "parse_number (c # cs @ t) = Some (of_int x, t)"
    using parse_number_toString [OF assms, of x] s by simp
  with nw ns c show ?thesis
    by (simp add: s skip_ws_not_ws)
qed

text \<open>One member of an object, followed by a comma or by the closing brace.\<close>

lemma parse_members_comma:
  assumes "parse_value n (skip_ws u) = Parsed v (0x2C # 0x22 # rest)"
  shows "parse_members (Suc n) acc (QuoteJSONString key @ 0x3A # u) =
    parse_members n (set_property key v acc) (0x22 # rest)"
  using assms
  by (simp add: QuoteJSONString_def parse_quote_units skip_ws_not_ws is_ws_simps)

lemma parse_members_close:
  assumes "parse_value n (skip_ws u) = Parsed v (0x7D # rest)"
  shows "parse_members (Suc n) acc (QuoteJSONString key @ 0x3A # u) =
    Parsed (JObject (set_property key v acc)) rest"
  using assms
  by (simp add: QuoteJSONString_def parse_quote_units skip_ws_not_ws is_ws_simps)

lemma QuoteJSONString_Cons: "QuoteJSONString s @ t = 0x22 # quote_units s @ 0x22 # t"
  by (simp add: QuoteJSONString_def)

lemma set_property_fields:
  "set_property (ascii ''qty'') e
     (set_property (ascii ''desc'') d
       (set_property (ascii ''price'') c
         (set_property (ascii ''name'') b
           (set_property (ascii ''id'') a [])))) =
   [(ascii ''id'', a), (ascii ''name'', b), (ascii ''price'', c), (ascii ''desc'', d),
    (ascii ''qty'', e)]"
  by (simp add: set_property_def array_index_def ascii_def is_digit_def)

lemma parse_members_item:
  "parse_members (Suc (Suc (Suc (Suc (Suc (Suc n)))))) []
     (QuoteJSONString (ascii ''id'') @ 0x3A # number_toString (id' it)
       @ 0x2C # QuoteJSONString (ascii ''name'') @ 0x3A # QuoteJSONString (name it)
       @ 0x2C # QuoteJSONString (ascii ''price'') @ 0x3A # number_toString (price it)
       @ 0x2C # QuoteJSONString (ascii ''desc'') @ 0x3A # QuoteJSONString (desc it)
       @ 0x2C # QuoteJSONString (ascii ''qty'') @ 0x3A # number_toString (qty it)
       @ 0x7D # t) =
   Parsed (json_of_item it) t"
proof -
  let ?q = "QuoteJSONString (ascii ''qty'') @ 0x3A # number_toString (qty it) @ 0x7D # t"
  let ?d = "QuoteJSONString (ascii ''desc'') @ 0x3A # QuoteJSONString (desc it) @ 0x2C # ?q"
  let ?p = "QuoteJSONString (ascii ''price'') @ 0x3A # number_toString (price it) @ 0x2C # ?d"
  let ?n = "QuoteJSONString (ascii ''name'') @ 0x3A # QuoteJSONString (name it) @ 0x2C # ?p"
  have ne: "number_end (0x2C # r)" "number_end (0x7D # r)" for r
    by (simp_all add: number_end_def)
  have 1: "parse_members (Suc (Suc (Suc (Suc (Suc (Suc n)))))) []
      (QuoteJSONString (ascii ''id'') @ 0x3A # number_toString (id' it) @ 0x2C # ?n) =
    parse_members (Suc (Suc (Suc (Suc (Suc n)))))
      (set_property (ascii ''id'') (JNumber (of_int (id' it))) []) ?n"
    unfolding QuoteJSONString_Cons [of "ascii ''name''"]
    by (rule parse_members_comma) (rule parse_value_number, rule ne)
  have 2: "parse_members (Suc (Suc (Suc (Suc (Suc n))))) acc ?n =
    parse_members (Suc (Suc (Suc (Suc n)))) (set_property (ascii ''name'') (JString (name it)) acc) ?p"
    for acc
    unfolding QuoteJSONString_Cons [of "ascii ''price''"]
    by (rule parse_members_comma) (rule parse_value_string)
  have 3: "parse_members (Suc (Suc (Suc (Suc n)))) acc ?p =
    parse_members (Suc (Suc (Suc n))) (set_property (ascii ''price'') (JNumber (of_int (price it))) acc) ?d"
    for acc
    unfolding QuoteJSONString_Cons [of "ascii ''desc''"]
    by (rule parse_members_comma) (rule parse_value_number, rule ne)
  have 4: "parse_members (Suc (Suc (Suc n))) acc ?d =
    parse_members (Suc (Suc n)) (set_property (ascii ''desc'') (JString (desc it)) acc) ?q"
    for acc
    unfolding QuoteJSONString_Cons [of "ascii ''qty''"]
    by (rule parse_members_comma) (rule parse_value_string)
  have 5: "parse_members (Suc (Suc n)) acc ?q =
    Parsed (JObject (set_property (ascii ''qty'') (JNumber (of_int (qty it))) acc)) t"
    for acc
    by (rule parse_members_close) (rule parse_value_number, rule ne)
  show ?thesis
    by (simp only: append_assoc append_Cons 1 2 3 4 5 set_property_fields json_of_item_def)
qed

lemma parse_value_object_start:
  "parse_value (Suc n) (skip_ws (0x7B # 0x22 # u)) = parse_members n [] (0x22 # u)"
  by (simp add: skip_ws_not_ws is_ws_simps del: parse_members.simps)

lemma parse_value_item:
  "parse_value (Suc (Suc (Suc (Suc (Suc (Suc (Suc n))))))) (skip_ws (stringify_item it @ t)) =
   Parsed (json_of_item it) t"
proof -
  have "stringify_item it @ t =
    0x7B # 0x22 # quote_units (ascii ''id'') @ 0x22 # 0x3A # number_toString (id' it)
       @ 0x2C # QuoteJSONString (ascii ''name'') @ 0x3A # QuoteJSONString (name it)
       @ 0x2C # QuoteJSONString (ascii ''price'') @ 0x3A # number_toString (price it)
       @ 0x2C # QuoteJSONString (ascii ''desc'') @ 0x3A # QuoteJSONString (desc it)
       @ 0x2C # QuoteJSONString (ascii ''qty'') @ 0x3A # number_toString (qty it)
       @ 0x7D # t"
    by (simp add: stringify_item_def QuoteJSONString_Cons)
  then show ?thesis
    using parse_members_item [of n it t]
    by (simp only: parse_value_object_start QuoteJSONString_Cons [of "ascii ''id''"])
qed

lemma insert_index_last:
  "\<forall>k' \<in> fst ` set ps. \<exists>a. array_index k' = Some a \<and> a < n \<Longrightarrow>
   insert_index n k v ps = ps @ [(k, v)]"
  by (induction ps) auto

lemma set_property_last:
  assumes "own_keys_ordered (ps @ [(k, v)])"
  shows "set_property k v ps = ps @ [(k, v)]"
proof -
  from assms have d: "k \<notin> fst ` set ps" and b: "\<forall>k' \<in> fst ` set ps. key_before k' k"
    by (auto simp: own_keys_ordered_def sorted_wrt_append)
  from d have m: "map_of ps k = None"
    by (simp add: map_of_eq_None_iff)
  show ?thesis
  proof (cases "array_index k")
    case None
    with m show ?thesis
      by (simp add: set_property_def)
  next
    case (Some n)
    with b have "\<forall>k' \<in> fst ` set ps. \<exists>a. array_index k' = Some a \<and> a < n"
      by (auto simp: key_before_def split: option.splits)
    then have "insert_index n k v ps = ps @ [(k, v)]"
      by (rule insert_index_last)
    with m Some show ?thesis
      by (simp add: set_property_def)
  qed
qed

lemma own_keys_ordered_map:
  "own_keys_ordered (map (\<lambda>(k, x). (k, f x)) ps) = own_keys_ordered ps"
proof -
  have "map fst (map (\<lambda>(k, x). (k, f x)) ps) = map fst ps"
    by (induction ps) auto
  then show ?thesis
    unfolding own_keys_ordered_def by (simp only:)
qed

lemma JSON_stringify_members:
  "JSON_stringify c = 0x7B # join [0x2C] (map member_text c) @ [0x7D]"
  by (simp add: JSON_stringify_def member_text_def)

lemma members_start: "\<exists>u. join [0x2C] (map member_text (x # xs)) @ t = 0x22 # u"
  by (cases x; cases xs) (simp_all add: member_text_def QuoteJSONString_def)

lemma parse_cart_members:
  "own_keys_ordered (pre @ c) \<Longrightarrow> c \<noteq> [] \<Longrightarrow> length c + 7 \<le> n \<Longrightarrow>
   parse_members n (map (\<lambda>(k, it). (k, json_of_item it)) pre)
     (join [0x2C] (map member_text c) @ 0x7D # t) =
   Parsed (JObject (map (\<lambda>(k, it). (k, json_of_item it)) (pre @ c))) t"
proof (induction c arbitrary: pre n)
  case Nil
  then show ?case by simp
next
  case (Cons x c)
  obtain k it where x: "x = (k, it)"
    by (cases x)
  define m where "m = n - 8"
  from Cons.prems(3) have "8 \<le> n"
    by simp
  then have n: "n = Suc (Suc (Suc (Suc (Suc (Suc (Suc (Suc m)))))))"
    unfolding m_def by simp
  let ?J = "\<lambda>(k, it). (k, json_of_item it)"
  have "own_keys_ordered ((pre @ [x]) @ c)"
    using Cons.prems(1) by simp
  then have "own_keys_ordered (pre @ [x])"
    by (auto simp: own_keys_ordered_def sorted_wrt_append)
  then have "own_keys_ordered (map ?J (pre @ [x]))"
    by (simp only: own_keys_ordered_map)
  then have sp: "set_property k (json_of_item it) (map ?J pre) = map ?J pre @ [(k, json_of_item it)]"
    by (intro set_property_last) (simp add: x)
  show ?case
  proof (cases c)
    case Nil
    have "parse_members n (map ?J pre)
        (QuoteJSONString k @ 0x3A # stringify_item it @ 0x7D # t) =
      Parsed (JObject (set_property k (json_of_item it) (map ?J pre))) t"
      unfolding n by (rule parse_members_close) (rule parse_value_item)
    with Nil x sp show ?thesis
      by (simp add: member_text_def)
  next
    case (Cons y ys)
    obtain u where u: "join [0x2C] (map member_text (y # ys)) @ 0x7D # t = 0x22 # u"
      using members_start by blast
    have "parse_members n (map ?J pre)
        (QuoteJSONString k @ 0x3A # stringify_item it @ 0x2C # 0x22 # u) =
      parse_members (Suc (Suc (Suc (Suc (Suc (Suc (Suc m))))))) (set_property k (json_of_item it) (map ?J pre))
        (0x22 # u)"
      unfolding n by (rule parse_members_comma) (rule parse_value_item)
    moreover have "parse_members (Suc (Suc (Suc (Suc (Suc (Suc (Suc m))))))) (map ?J (pre @ [x]))
        (join [0x2C] (map member_text c) @ 0x7D # t) =
      Parsed (JObject (map ?J ((pre @ [x]) @ c))) t"
      using Cons.prems Cons n by (intro Cons.IH) simp_all
    ultimately show ?thesis
      using Cons x sp u by (simp add: member_text_def)
  qed
qed

lemma length_join: "\<forall>x \<in> set xs. m \<le> length x \<Longrightarrow> m * length xs \<le> length (join sep xs)"
  by (induction sep xs rule: join.induct) auto

lemma length_member_text: "8 \<le> length (member_text x)"
  by (cases x) (simp add: member_text_def QuoteJSONString_def stringify_item_def)

lemma JSON_stringify_fuel: "c \<noteq> [] \<Longrightarrow> length c + 7 \<le> 2 * length (JSON_stringify c)"
proof -
  assume "c \<noteq> []"
  then have "1 \<le> length c"
    by (cases c) auto
  moreover have "8 * length (map member_text c) \<le> length (join [0x2C] (map member_text c))"
    by (rule length_join) (auto simp: length_member_text)
  ultimately show ?thesis
    by (simp add: JSON_stringify_members)
qed

lemma parse_empty_object: "parse_value (Suc n) (skip_ws [0x7B, 0x7D]) = Parsed (JObject []) []"
  by (simp add: skip_ws_not_ws is_ws_simps)

lemma parse_value_stringify:
  assumes "own_keys_ordered c"
  shows "parse_value (Suc (2 * length (JSON_stringify c))) (skip_ws (JSON_stringify c)) =
    Parsed (json_of_cart c) []"
proof (cases c)
  case Nil
  then have "JSON_stringify c = [0x7B, 0x7D]" and "json_of_cart c = JObject []"
    by (simp_all add: JSON_stringify_def json_of_cart_def)
  then show ?thesis
    by (simp only: parse_empty_object)
next
  case (Cons x xs)
  let ?n = "2 * length (JSON_stringify c)"
  obtain u where u: "join [0x2C] (map member_text c) @ 0x7D # [] = 0x22 # u"
    using members_start [of x xs] Cons by blast
  have "parse_members ?n (map (\<lambda>(k, it). (k, json_of_item it)) [])
      (join [0x2C] (map member_text c) @ 0x7D # []) =
    Parsed (JObject (map (\<lambda>(k, it). (k, json_of_item it)) ([] @ c))) []"
    using assms Cons JSON_stringify_fuel [of c] by (intro parse_cart_members) simp_all
  with u have "parse_members ?n [] (0x22 # u) = Parsed (json_of_cart c) []"
    by (simp add: json_of_cart_def)
  moreover have "JSON_stringify c = 0x7B # 0x22 # u"
    using u by (simp add: JSON_stringify_members)
  ultimately show ?thesis
    by (simp only: parse_value_object_start)
qed

lemma JSON_parse_stringify:
  assumes "own_keys_ordered c"
  shows "JSON_parse (JSON_stringify c) = Some (Inr (json_of_cart c))"
  unfolding JSON_parse_def parse_value_stringify [OF assms] by (simp add: skip_ws_def)

lemma JSON_stringify_nonempty: "JSON_stringify c \<noteq> []"
  by (simp add: JSON_stringify_def)

lemma json_of_item_inj: "json_of_item a = json_of_item b \<Longrightarrow> a = b"
  by (cases a; cases b) (simp add: json_of_item_def)

lemma json_of_cart_inj: "json_of_cart a = json_of_cart b \<Longrightarrow> a = b"
proof (induction a arbitrary: b)
  case Nil
  then show ?case by (simp add: json_of_cart_def)
next
  case (Cons x a)
  then obtain y b' where b: "b = y # b'"
    by (cases b) (auto simp: json_of_cart_def)
  with Cons.prems have "json_of_cart a = json_of_cart b'" and "fst x = fst y"
    and "json_of_item (snd x) = json_of_item (snd y)"
    by (auto simp: json_of_cart_def split: prod.splits)
  with Cons.IH [of b'] b show ?case
    by (auto dest: json_of_item_inj intro: prod_eqI)
qed

section \<open>The keys of the cart\<close>

lemma list_all_update_property:
  "list_all Q ps \<Longrightarrow> (\<And>v. Q (k, v) \<Longrightarrow> Q (k, f v)) \<Longrightarrow> list_all Q (update_property k f ps)"
  by (induction ps) auto

lemma list_all_insert_index: "list_all Q ps \<Longrightarrow> Q (k, v) \<Longrightarrow> list_all Q (insert_index n k v ps)"
  by (induction ps) (auto split: option.splits)

lemma list_all_set_property: "list_all Q ps \<Longrightarrow> Q (k, v) \<Longrightarrow> list_all Q (set_property k v ps)"
  by (auto simp: set_property_def list_all_insert_index list_all_update_property
      split: option.splits)

lemma list_all_delete_property: "list_all Q ps \<Longrightarrow> list_all Q (delete_property k ps)"
  by (simp add: delete_property_def list_all_iff)

lemma cart_invariant_addToCart:
  "cart_invariant (cart st) \<Longrightarrow> cart_invariant (cart (addToCart i st))"
proof (cases "find (\<lambda>x. id' x = i) products")
  case None
  then show "cart_invariant (cart st) \<Longrightarrow> ?thesis"
    by (simp add: addToCart_def)
next
  case (Some p)
  assume inv: "cart_invariant (cart st)"
  from Some have p: "id' p = i" "p \<in> set products"
    by (auto simp: find_Some_iff in_set_conv_nth)
  show ?thesis
    using inv p unfolding cart_addToCart [OF Some] cart_invariant_def
    by (auto intro!: list_all_set_property list_all_update_property simp: new_item_def
        split: option.splits)
qed

lemma cart_invariant_click:
  "cart_invariant (cart st) \<Longrightarrow> cart_item_click op i st = Inr st' \<Longrightarrow>
   cart_invariant (cart st')"
  unfolding cart_invariant_def
  by (auto simp: cart_item_click_def Let_def
      intro!: list_all_update_property list_all_delete_property
      split: if_splits option.splits)

lemma cart_invariant_step: "cart_invariant (cart st) \<Longrightarrow> cart_invariant (cart (step e st ev))"
proof (cases ev)
  case (AddClick i)
  then show "cart_invariant (cart st) \<Longrightarrow> ?thesis"
    by (simp add: step_def cart_invariant_addToCart)
next
  case (CartItemClick op i)
  then show "cart_invariant (cart st) \<Longrightarrow> ?thesis"
    by (auto simp: step_def dest: cart_invariant_click split: sum.splits)
next
  case (EmptyClick b)
  then show "cart_invariant (cart st) \<Longrightarrow> ?thesis"
    by (simp add: step_def empty_cart_click_def Let_def cart_invariant_def)
next
  case CheckoutClick
  then show "cart_invariant (cart st) \<Longrightarrow> ?thesis"
    using step_checkout_keeps [of e st] by simp
qed

lemma cart_invariant_run: "cart_invariant (cart st) \<Longrightarrow> cart_invariant (cart (run e st evs))"
  unfolding run_def by (induction evs arbitrary: st) (simp_all add: cart_invariant_step)

section \<open>The order of the keys\<close>

lemma digit_char_unat: "is_digit c \<Longrightarrow> digit_char (unat c - 48) = c"
proof -
  assume d: "is_digit c"
  then have "48 \<le> unat c" "unat c - 48 < 10"
    by (auto simp: is_digit_def word_le_nat_alt)
  then have "unat (digit_char (unat c - 48)) = unat c"
    by (simp add: unat_digit_char)
  then show ?thesis
    by (simp only: word_unat_eq_iff)
qed

lemma decimal_value_pos:
  "ds \<noteq> [] \<Longrightarrow> list_all is_digit ds \<Longrightarrow> hd ds \<noteq> 0x30 \<Longrightarrow> 0 < decimal_value ds"
proof (induction ds rule: rev_induct)
  case Nil
  then show ?case by simp
next
  case (snoc c ds)
  show ?case
  proof (cases "ds = []")
    case True
    with snoc.prems have "is_digit c" "c \<noteq> 0x30"
      by simp_all
    then have "48 < unat c"
      by (auto simp: is_digit_def word_le_nat_alt word_unat_eq_iff)
    with True show ?thesis
      by (simp add: decimal_value_def)
  next
    case False
    with snoc have "0 < decimal_value ds"
      by simp
    then show ?thesis
      by (simp add: decimal_value_snoc)
  qed
qed

lemma digits_of_decimal_value:
  "ds \<noteq> [] \<Longrightarrow> list_all is_digit ds \<Longrightarrow> length ds = 1 \<or> hd ds \<noteq> 0x30 \<Longrightarrow>
   digits_of_nat (decimal_value ds) = ds"
proof (induction ds rule: rev_induct)
  case Nil
  then show ?case by simp
next
  case (snoc c ds)
  from snoc.prems have c: "is_digit c"
    by simp
  then have d: "unat c - 48 < 10"
    by (auto simp: is_digit_def word_le_nat_alt)
  show ?case
  proof (cases "ds = []")
    case True
    with c d show ?thesis
      by (subst digits_of_nat.simps) (simp add: decimal_value_def digit_char_unat)
  next
    case False
    with snoc.prems have h: "hd ds \<noteq> 0x30" and ds: "list_all is_digit ds"
      by simp_all
    with False have pos: "0 < decimal_value ds"
      by (intro decimal_value_pos)
    from False h ds have "digits_of_nat (decimal_value ds) = ds"
      by (intro snoc.IH) simp_all
    with pos d c show ?thesis
      by (subst digits_of_nat.simps) (simp add: decimal_value_snoc digit_char_unat)
  qed
qed

lemma array_index_digits:
  assumes "array_index k = Some n"
  shows "digits_of_nat n = k"
proof -
  from assms have c: "k \<noteq> []" "list_all is_digit k" "length k = 1 \<or> hd k \<noteq> 0x30"
    and n: "n = decimal_value k"
    by (auto simp: array_index_def split: if_splits)
  from c have "digits_of_nat (decimal_value k) = k"
    by (rule digits_of_decimal_value)
  with n show ?thesis
    by simp
qed

lemma array_index_inj: "array_index k1 = Some n \<Longrightarrow> array_index k2 = Some n \<Longrightarrow> k1 = k2"
  using array_index_digits [of k1 n] array_index_digits [of k2 n] by simp

lemma key_before_index:
  "array_index k = Some n \<Longrightarrow> key_before k' k \<longleftrightarrow> (\<exists>m. array_index k' = Some m \<and> m < n)"
  "array_index k = Some n \<Longrightarrow> key_before k k' \<longleftrightarrow> (\<forall>m. array_index k' = Some m \<longrightarrow> n < m)"
  by (auto simp: key_before_def split: option.splits)

lemma key_before_other: "array_index k = None \<Longrightarrow> key_before k' k"
  by (simp add: key_before_def split: option.splits)

lemma own_keys_ordered_Cons:
  "own_keys_ordered ((k, v) # ps) \<longleftrightarrow>
     k \<notin> fst ` set ps \<and> (\<forall>k' \<in> fst ` set ps. key_before k k') \<and> own_keys_ordered ps"
  by (auto simp: own_keys_ordered_def)

lemma keys_insert_index: "fst ` set (insert_index n k v ps) = insert k (fst ` set ps)"
  by (simp add: set_insert_index)

lemma own_keys_ordered_insert_index:
  "own_keys_ordered ps \<Longrightarrow> k \<notin> fst ` set ps \<Longrightarrow> array_index k = Some n \<Longrightarrow>
   own_keys_ordered (insert_index n k v ps)"
proof (induction ps)
  case Nil
  then show ?case by (simp add: own_keys_ordered_def)
next
  case (Cons p ps)
  obtain k' v' where p: "p = (k', v')"
    by (cases p)
  from Cons.prems p have o: "k' \<notin> fst ` set ps" "\<forall>x \<in> fst ` set ps. key_before k' x"
    "own_keys_ordered ps" and ne: "k \<noteq> k'" "k \<notin> fst ` set ps"
    by (auto simp: own_keys_ordered_Cons)
  show ?case
  proof (cases "array_index k'")
    case None
    with o(2) have "\<forall>x \<in> fst ` set ps. array_index x = None"
      by (auto simp: key_before_def)
    with None Cons.prems ne p show ?thesis
      by (auto simp: own_keys_ordered_Cons key_before_index)
  next
    case (Some m)
    show ?thesis
    proof (cases "m < n")
      case True
      with Some Cons.prems(3) have "key_before k' k"
        by (simp add: key_before_index)
      moreover have "own_keys_ordered (insert_index n k v ps)"
        using o(3) ne(2) Cons.prems(3) by (rule Cons.IH)
      ultimately show ?thesis
        using Some True o ne p by (auto simp: own_keys_ordered_Cons keys_insert_index)
    next
      case False
      from Some Cons.prems(3) ne(1) have "m \<noteq> n"
        by (auto dest: array_index_inj)
      with False have nm: "n < m"
        by simp
      have "\<forall>x \<in> fst ` set ps. key_before k x"
      proof
        fix x assume "x \<in> fst ` set ps"
        with o(2) have "key_before k' x"
          by blast
        with Some nm Cons.prems(3) show "key_before k x"
          by (auto simp: key_before_index)
      qed
      with Some False nm Cons.prems ne p show ?thesis
        by (auto simp: own_keys_ordered_Cons key_before_index)
    qed
  qed
qed

lemma keys_update_property: "map fst (update_property k f ps) = map fst ps"
  by (induction ps) auto

lemma own_keys_ordered_update_property:
  "own_keys_ordered (update_property k f ps) = own_keys_ordered ps"
  by (simp add: own_keys_ordered_def keys_update_property)

lemma own_keys_ordered_delete_property:
  "own_keys_ordered ps \<Longrightarrow> own_keys_ordered (delete_property k ps)"
proof -
  have "map fst (delete_property k ps) = filter (\<lambda>x. x \<noteq> k) (map fst ps)"
    by (simp add: delete_property_def filter_map comp_def)
  then show "own_keys_ordered ps \<Longrightarrow> ?thesis"
    by (simp add: own_keys_ordered_def sorted_wrt_filter)
qed

lemma own_keys_ordered_set_property:
  "own_keys_ordered ps \<Longrightarrow> own_keys_ordered (set_property k v ps)"
proof (cases "map_of ps k")
  case (Some a)
  then show "own_keys_ordered ps \<Longrightarrow> ?thesis"
    by (simp add: set_property_def own_keys_ordered_update_property)
next
  case None
  assume o: "own_keys_ordered ps"
  from None have k: "k \<notin> fst ` set ps"
    by (simp add: map_of_eq_None_iff)
  show ?thesis
  proof (cases "array_index k")
    case (Some n)
    with None o k show ?thesis
      by (simp add: set_property_def own_keys_ordered_insert_index)
  next
    case no_index: None
    with None o k show ?thesis
      by (auto simp: set_property_def own_keys_ordered_def sorted_wrt_append key_before_other)
  qed
qed

lemma own_keys_ordered_step: "own_keys_ordered (cart st) \<Longrightarrow> own_keys_ordered (cart (step e st ev))"
proof (cases ev)
  case (AddClick i)
  then show "own_keys_ordered (cart st) \<Longrightarrow> ?thesis"
    by (auto simp: step_def addToCart_def Let_def own_keys_ordered_update_property
        own_keys_ordered_set_property split: option.splits)
next
  case (CartItemClick op i)
  then show "own_keys_ordered (cart st) \<Longrightarrow> ?thesis"
    by (auto simp: step_def cart_item_click_def Let_def own_keys_ordered_update_property
        own_keys_ordered_delete_property split: sum.splits if_splits option.splits)
next
  case (EmptyClick b)
  then show "own_keys_ordered (cart st) \<Longrightarrow> ?thesis"
    by (simp add: step_def empty_cart_click_def Let_def own_keys_ordered_def)
next
  case CheckoutClick
  then show "own_keys_ordered (cart st) \<Longrightarrow> ?thesis"
    using step_checkout_keeps [of e st] by simp
qed

lemma own_keys_ordered_run: "own_keys_ordered (cart st) \<Longrightarrow> own_keys_ordered (cart (run e st evs))"
  unfolding run_def by (induction evs arbitrary: st) (simp_all add: own_keys_ordered_step)

text \<open>
  C1. For every cart (an object: its keys in the order of own properties, no
  key twice), decoding the text that \<open>persistCart\<close> stores gives the cart
  back: the result is the JSON value of the cart, and no other cart has that
  value. This includes the empty cart, and every cart that the handlers make
  of such a cart is such a cart again.
\<close>

theorem decode_encode_round_trip:
  "own_keys_ordered c \<Longrightarrow>
     decode (Some (JSON_stringify c)) = Some (Inr (json_of_cart c)) \<and>
     decode (storage (persistCart (st\<lparr>cart := c\<rparr>))) = Some (Inr (json_of_cart c)) \<and>
     (\<forall>c'. json_of_cart c' = json_of_cart c \<longrightarrow> c' = c) \<and>
     decode (Some (JSON_stringify [])) = Some (Inr (json_of_cart [])) \<and>
     own_keys_ordered (cart (run e (st\<lparr>cart := c\<rparr>) evs))"
proof -
  assume c: "own_keys_ordered c"
  have e: "own_keys_ordered ([] :: cart)"
    by (simp add: own_keys_ordered_def)
  have "own_keys_ordered (cart (run e (st\<lparr>cart := c\<rparr>) evs))"
    using c by (intro own_keys_ordered_run) simp
  then show ?thesis
    using JSON_parse_stringify [OF c] JSON_parse_stringify [OF e]
    by (auto simp: decode_def JSON_stringify_nonempty persistCart_def dest: json_of_cart_inj)
qed

theorem decode_encode_round_trip_witness:
  "own_keys_ordered
     [(ascii ''1'', \<lparr>id' = 1, name = ascii ''a'', price = 12000, desc = [], qty = 2\<rparr>),
      (ascii ''3'', \<lparr>id' = 3, name = [0xF1, 0x22], price = 6000, desc = [], qty = 1\<rparr>)] \<and>
   decode (Some (JSON_stringify
     [(ascii ''1'', \<lparr>id' = 1, name = ascii ''a'', price = 12000, desc = [], qty = 2\<rparr>),
      (ascii ''3'', \<lparr>id' = 3, name = [0xF1, 0x22], price = 6000, desc = [], qty = 1\<rparr>)])) =
   Some (Inr (json_of_cart
     [(ascii ''1'', \<lparr>id' = 1, name = ascii ''a'', price = 12000, desc = [], qty = 2\<rparr>),
      (ascii ''3'', \<lparr>id' = 3, name = [0xF1, 0x22], price = 6000, desc = [], qty = 1\<rparr>)]))"
proof -
  let ?c = "[(ascii ''1'', \<lparr>id' = 1, name = ascii ''a'', price = 12000, desc = [], qty = 2\<rparr>),
      (ascii ''3'', \<lparr>id' = 3, name = [0xF1, 0x22], price = 6000, desc = [], qty = 1\<rparr>)]"
  have h: "own_keys_ordered ?c"
    by (simp add: own_keys_ordered_def key_before_def array_index_def decimal_value_def
        ascii_def is_digit_def)
  from decode_encode_round_trip [OF h] h show ?thesis
    by blast
qed

section \<open>The invariant of the keys\<close>

text \<open>
  C7 as stated fails at start-up: a stored text with an entry for the id 9,
  which no product of the catalogue has, is decoded as it is.
\<close>

theorem startup_unvalidated_counterexample:
  \<open>decode (Some (ascii ''{"9":{"id":9,"name":"Bola","price":5000,"desc":"","qty":1}}'')) =
     Some (Inr (json_of_cart
       [(ascii ''9'', \<lparr>id' = 9, name = ascii ''Bola'', price = 5000, desc = [], qty = 1\<rparr>)])) \<and>
   \<not> cart_invariant
       [(ascii ''9'', \<lparr>id' = 9, name = ascii ''Bola'', price = 5000, desc = [], qty = 1\<rparr>)]\<close>
  by (simp add: parser_defs json_of_cart_def json_of_item_def cart_invariant_def products_ids
      del: Suc_numeral)

text \<open>
  C7, amended. The cart decoded from an absent stored text is empty and
  satisfies the invariant (every key is the id of its entry and the id of a
  product of the catalogue); the text stored for a cart that satisfies it is
  decoded to that cart; and every click leads from a cart that satisfies it
  to a cart that satisfies it. The stored text itself is not validated.
\<close>

theorem cart_invariant_preserved:
  "decode None = Some (Inr (json_of_cart [])) \<and> cart_invariant [] \<and>
   (cart_invariant c \<and> own_keys_ordered c \<longrightarrow>
      decode (Some (JSON_stringify c)) = Some (Inr (json_of_cart c))) \<and>
   (cart_invariant (cart st) \<longrightarrow> cart_invariant (cart (run e st evs)))"
proof (intro conjI impI)
  show "decode None = Some (Inr (json_of_cart []))"
    by (simp add: decode_absent json_of_cart_def)
  show "cart_invariant []"
    by (simp add: cart_invariant_def)
  show "decode (Some (JSON_stringify c)) = Some (Inr (json_of_cart c))"
    if "cart_invariant c \<and> own_keys_ordered c"
    using that JSON_parse_stringify [of c] by (simp add: decode_def JSON_stringify_nonempty)
  show "cart_invariant (cart (run e st evs))" if "cart_invariant (cart st)"
    using that by (rule cart_invariant_run)
qed

theorem cart_invariant_preserved_witness:
  "cart_invariant [(ascii ''3'', \<lparr>id' = 3, name = [], price = 6000, desc = [], qty = 1\<rparr>)] \<and>
   cart_invariant (cart (run \<lparr>now = [], encodeURIComponent = Inr, popup_allowed = True\<rparr>
     \<lparr>cart = [(ascii ''3'', \<lparr>id' = 3, name = [], price = 6000, desc = [], qty = 1\<rparr>)],
        storage = None, cartCount = [], totalEl = [], effects = []\<rparr>
     [AddClick 1, CartItemClick (ascii ''plus'') 3]))"
proof -
  have h: "cart_invariant (cart
      \<lparr>cart = [(ascii ''3'', \<lparr>id' = 3, name = [], price = 6000, desc = [], qty = 1\<rparr>)],
        storage = None, cartCount = [], totalEl = [], effects = []\<rparr>)"
    by (simp add: cart_invariant_def products_ids number_toString_def digits_of_nat.simps
        digit_char_def ascii_def)
  from cart_invariant_preserved [THEN conjunct2, THEN conjunct2, THEN conjunct2, rule_format,
      OF h] h
  show ?thesis
    by simp
qed

end
